theory Spec2Isabelle
  imports Main "HOL-Library.Word" "HOL-Library.Multiset"
begin

section \<open>JavaScript strings and values\<close>

text \<open>
  A JavaScript string is a sequence of UTF-16 code units; \<open>length\<close> and \<open>slice\<close> count
  code units. The ellipsis of the source text is the single code unit U+2026.
\<close>

type_synonym jschar = "16 word"
type_synonym jsstring = "jschar list"

definition ascii :: "string \<Rightarrow> jsstring" where
  "ascii s = map of_char s"

definition ellipsis :: jschar where
  "ellipsis = 0x2026"

text \<open>
  Template-literal interpolation of a non-negative integer (\<open>`${n}`\<close>): its decimal
  digits, without leading zeros.
\<close>

fun show_nat :: "nat \<Rightarrow> jsstring" where
  "show_nat n =
     (if n < 10 then [of_nat (48 + n)]
      else show_nat (n div 10) @ [of_nat (48 + n mod 10)])"

declare show_nat.simps [simp del]

text \<open>
  The values that \<open>JSON.parse\<close> returns, as the viewer sees them. A Number is kept as the
  text that \<open>`${n}`\<close> prints for it: the viewer looks at a number through \<open>getType\<close> and
  through that text only. An Object is the list of its own properties in creation
  order, each key once. \<open>JUndefined\<close> is what reading a missing property gives.
\<close>

datatype json =
    JNull
  | JBool bool
  | JNum jsstring
  | JStr jsstring
  | JArr "json list"
  | JObj "(jsstring \<times> json) list"
  | JUndefined

subsection \<open>Object.keys\<close>

text \<open>
  \<open>Object.keys\<close> lists the own property keys in the order of the language
  (OrdinaryOwnPropertyKeys): first the keys that are array indices, in ascending numeric
  order, then the other keys in the order in which the properties were created. A key is
  an array index when it is the canonical decimal text of an integer below \<open>2^32 - 1\<close>.
\<close>

definition isDigit :: "jschar \<Rightarrow> bool" where
  "isDigit c = (0x30 \<le> c \<and> c \<le> 0x39)"

definition ToNumber :: "jsstring \<Rightarrow> nat" where
  "ToNumber k = foldl (\<lambda>a c. 10 * a + (unat c - 48)) 0 k"

definition isArrayIndex :: "jsstring \<Rightarrow> bool" where
  "isArrayIndex k =
     (k \<noteq> [] \<and> list_all isDigit k \<and> show_nat (ToNumber k) = k \<and> ToNumber k < 2 ^ 32 - 1)"

definition Object_keys :: "(jsstring \<times> json) list \<Rightarrow> jsstring list" where
  "Object_keys props =
     (let ks = map fst props
      in sort_key ToNumber (filter isArrayIndex ks) @ filter (\<lambda>k. \<not> isArrayIndex k) ks)"

text \<open>\<open>value[key]\<close> on an object.\<close>

definition prop_get :: "(jsstring \<times> json) list \<Rightarrow> jsstring \<Rightarrow> json" where
  "prop_get props key = (case map_of props key of Some v \<Rightarrow> v | None \<Rightarrow> JUndefined)"

section \<open>The component JSONViewerObj\<close>

definition PAGE_SIZE :: nat where
  "PAGE_SIZE = 25"

definition MAX_VALUE_LENGTH :: nat where
  "MAX_VALUE_LENGTH = 100"

text \<open>
  \<open>State2\<close>, the state of one component instance. \<open>page\<close> is a count: it starts at 0 and
  is only ever incremented, so it is a natural number here.
\<close>

record State2 =
  expanded :: bool
  hasBeenExpanded :: bool
  page :: nat

text \<open>
  An instance is identified by its position in the tree, which is what its \<open>paths\<close> prop
  spells out. The states of all instances are kept in one store indexed by \<open>paths\<close>; an
  instance that was never touched has the state its constructor gives it.
\<close>

type_synonym store = "jsstring list \<Rightarrow> State2"

definition constructor :: "jsstring list \<Rightarrow> State2" where
  "constructor paths = \<lparr>expanded = (length paths = 0), hasBeenExpanded = False, page = 0\<rparr>"

definition initial_store :: store where
  "initial_store = (\<lambda>paths. constructor paths)"

datatype jstype = TBoolean | TObject | TArray | TNumber | TString | TNull | TUnknown

fun getType :: "json \<Rightarrow> jstype" where
  "getType (JBool b) = TBoolean"
| "getType (JObj props) = TObject"
| "getType (JArr xs) = TArray"
| "getType (JNum n) = TNumber"
| "getType (JStr s) = TString"
| "getType JNull = TNull"
| "getType JUndefined = TUnknown"

text \<open>\<open>obj.length\<close> of a string or an array, and the own properties of an object.\<close>

fun js_length :: "json \<Rightarrow> nat" where
  "js_length (JStr s) = length s"
| "js_length (JArr xs) = length xs"
| "js_length _ = 0"

fun properties :: "json \<Rightarrow> (jsstring \<times> json) list" where
  "properties (JObj props) = props"
| "properties _ = []"

definition isCollapsable :: "json \<Rightarrow> bool" where
  "isCollapsable obj =
     (case getType obj of
        TString \<Rightarrow> js_length obj > MAX_VALUE_LENGTH
      | TArray \<Rightarrow> js_length obj > 0
      | TObject \<Rightarrow> length (Object_keys (properties obj)) > 0
      | _ \<Rightarrow> False)"

subsection \<open>Rows\<close>

text \<open>
  The handlers are bound to their instance, named here by its \<open>paths\<close>.
\<close>

datatype handler = HandleClickKey "jsstring list" | HandleNextPage "jsstring list"

datatype label = LNum nat | LStr jsstring

text \<open>
  What \<open>getValue\<close> returns: a bare string (for an empty collection), a cell with the
  abbreviation and the type comment, or a value cell with its type class and text;
  \<open>None\<close> is \<open>null\<close>.
\<close>

datatype cell =
    TextNode jsstring
  | TdSummary jsstring jsstring
  | TdValue jstype jsstring

text \<open>
  The three kinds of \<open>tr\<close>. A node's row carries its React key, the classes \<open>hide\<close>,
  \<open>json-viewer__row--collapsable\<close> and \<open>json-viewer__row--collapsed\<close>, the indentation
  level (the factor of 1.3em), the click handler of the key cell, the label shown in the
  key cell and the value cell. The row of the next-page button has no class at all.
\<close>

datatype row =
    Tr (rowKey: jsstring) (rowHide: bool) (rowCollapsable: bool) (rowCollapsed: bool)
       (rowIndent: int) (rowOnClick: "handler option") (rowLabel: "label option")
       (rowValue: "cell option")
  | TrNext (nextIndent: nat) (nextRange: jsstring) (nextOnClick: handler)
       (nextCaption: jsstring)
  | TrError jsstring

fun hidden :: "row \<Rightarrow> bool" where
  "hidden (Tr k h c1 c2 i oc l v) = h"
| "hidden (TrNext i r oc c) = False"
| "hidden (TrError t) = False"

fun isPagination :: "row \<Rightarrow> bool" where
  "isPagination (TrNext i r oc c) = True"
| "isPagination _ = False"

fun isError :: "row \<Rightarrow> bool" where
  "isError (TrError t) = True"
| "isError _ = False"

subsection \<open>getValue\<close>

text \<open>
  \<open>`${obj}`\<close> for the values that are neither arrays nor objects; \<open>getValue\<close> returns
  before this line for an array or an object, so the last equation is never used.
\<close>

fun toStr :: "json \<Rightarrow> jsstring" where
  "toStr JNull = ascii ''null''"
| "toStr (JBool b) = (if b then ascii ''true'' else ascii ''false'')"
| "toStr (JNum n) = n"
| "toStr (JStr s) = s"
| "toStr JUndefined = ascii ''undefined''"
| "toStr _ = []"

text \<open>The part of \<open>getValue\<close> under \<open>if (hasChildren)\<close>.\<close>

definition getValue_children :: "nat \<Rightarrow> jsstring \<Rightarrow> jsstring \<Rightarrow> bool \<Rightarrow> cell option" where
  "getValue_children n abbr comment collapsed =
     (if n = 0 then Some (TextNode abbr)
      else if collapsed then Some (TdSummary abbr comment)
      else None)"

text \<open>
  The part of \<open>getValue\<close> after it. \<open>slice(0, h)\<close> is \<open>take h\<close>; \<open>slice(length - h)\<close> is
  \<open>drop (length - h)\<close>, its argument being positive under the guard.
\<close>

definition getValue_scalar :: "json \<Rightarrow> bool \<Rightarrow> cell option" where
  "getValue_scalar obj collapsed =
     (let strObj = toStr obj;
          collapsable = length strObj > MAX_VALUE_LENGTH;
          displayValue =
            (if collapsable \<and> collapsed then
               (let halfOfMax = MAX_VALUE_LENGTH div 2 - 5;
                    start = take halfOfMax strObj;
                    end = drop (length strObj - halfOfMax) strObj
                in start @ [ellipsis] @ end)
             else strObj)
      in Some (TdValue (getType obj) displayValue))"

fun getValue :: "json \<Rightarrow> bool \<Rightarrow> cell option" where
  "getValue (JArr xs) collapsed =
     (let n = length xs;
          comment = (if n > 0
                     then ascii ''// '' @ show_nat n @ ascii '' item'' @ (if n = 1 then [] else ascii ''s'')
                     else []);
          abbr = (if collapsed \<and> n > 0 then ascii ''['' @ [ellipsis] @ ascii '']'' else ascii ''[]'')
      in getValue_children n abbr comment collapsed)"
| "getValue (JObj props) collapsed =
     (let n = length (Object_keys props);
          comment = (if n > 0
                     then ascii ''// '' @ show_nat n @ ascii '' key'' @ (if n = 1 then [] else ascii ''s'')
                     else []);
          abbr = (if collapsed \<and> n > 0 then ascii ''{'' @ [ellipsis] @ ascii ''}'' else ascii ''{}'')
      in getValue_children n abbr comment collapsed)"
| "getValue obj collapsed = getValue_scalar obj collapsed"

subsection \<open>The handlers\<close>

definition handleClickKey :: "State2 \<Rightarrow> State2" where
  "handleClickKey state = state\<lparr>expanded := \<not> expanded state, hasBeenExpanded := True\<rparr>"

definition handleNextPage :: "State2 \<Rightarrow> State2" where
  "handleNextPage state = state\<lparr>page := page state + 1\<rparr>"

text \<open>Running a handler changes the state of its own instance.\<close>

fun dispatch :: "store \<Rightarrow> handler \<Rightarrow> store" where
  "dispatch st (HandleClickKey paths) = st(paths := handleClickKey (st paths))"
| "dispatch st (HandleNextPage paths) = st(paths := handleNextPage (st paths))"

subsection \<open>render\<close>

text \<open>
  The \<open>tr\<close> of a node, which the three branches of \<open>render\<close> build alike; they differ in
  the label shown.
\<close>

definition nodeRow :: "json \<Rightarrow> State2 \<Rightarrow> jsstring list \<Rightarrow> label option \<Rightarrow> bool \<Rightarrow> row" where
  "nodeRow value s paths shown hide =
     (let collapsable = isCollapsable value;
          collapsed = \<not> expanded s
      in Tr (concat paths) hide collapsable collapsed (int (length paths) - 1)
            (if collapsable then Some (HandleClickKey paths) else None)
            shown (getValue value collapsed))"

text \<open>
  \<open>for (let key = 0; key < value.length && key < maxItem; key++) rows.push(body key)\<close>,
  where \<open>maxItem\<close> is a number or \<open>Infinity\<close> (\<open>None\<close>).
\<close>

definition below :: "nat \<Rightarrow> nat option \<Rightarrow> bool" where
  "below key maxItem = (case maxItem of None \<Rightarrow> True | Some m \<Rightarrow> key < m)"

text \<open>The key at which the loop stops.\<close>

definition upper :: "nat \<Rightarrow> nat option \<Rightarrow> nat" where
  "upper len maxItem = (case maxItem of None \<Rightarrow> len | Some m \<Rightarrow> min len m)"

function for_keys :: "nat \<Rightarrow> nat \<Rightarrow> nat option \<Rightarrow> (nat \<Rightarrow> row list) \<Rightarrow> row list \<Rightarrow> row list" where
  "for_keys key len maxItem body rows =
     (if key < len \<and> below key maxItem
      then for_keys (key + 1) len maxItem body (rows @ body key)
      else rows)"
  by pat_completeness auto
termination
  by (relation "measure (\<lambda>(key, len, maxItem, body, rows). len - key)") auto

declare for_keys.simps [simp del]

lemma for_keys_eq:
  "for_keys key len maxItem body rows = rows @ concat (map body [key..<upper len maxItem])"
proof (induction key len maxItem body rows rule: for_keys.induct)
  case (1 key len maxItem body rows)
  show ?case
  proof (cases "key < len \<and> below key maxItem")
    case True
    then have lt: "key < upper len maxItem"
      by (simp add: upper_def below_def split: option.splits)
    have "for_keys key len maxItem body rows
        = for_keys (key + 1) len maxItem body (rows @ body key)"
      using True by (subst for_keys.simps) (simp only: if_True simp_thms)
    also have "\<dots> = (rows @ body key) @ concat (map body [key + 1..<upper len maxItem])"
      using True by (rule "1.IH")
    also have "\<dots> = rows @ concat (map body [key..<upper len maxItem])"
      using lt by (simp add: upt_conv_Cons)
    finally show ?thesis .
  next
    case False
    then have "upper len maxItem \<le> key"
      by (auto simp: upper_def below_def split: option.splits)
    moreover have "for_keys key len maxItem body rows = rows"
      using False by (subst for_keys.simps) (simp only: if_False simp_thms)
    ultimately show ?thesis by simp
  qed
qed

lemma upper_le: "upper len maxItem \<le> len"
  by (simp add: upper_def split: option.splits)

lemma for_keys_cong [fundef_cong]:
  assumes "key = key'" "len = len'" "maxItem = maxItem'" "rows = rows'"
    and "\<And>k. k < len' \<Longrightarrow> body k = body' k"
  shows "for_keys key len maxItem body rows = for_keys key' len' maxItem' body' rows'"
proof -
  have "map body [key'..<upper len' maxItem'] = map body' [key'..<upper len' maxItem']"
    using assms(5) upper_le [of len' maxItem'] by (intro map_cong) auto
  then show ?thesis
    by (simp only: assms(1-4) for_keys_eq)
qed

lemma size_nth_less: "key < length xs \<Longrightarrow> size (xs ! key) < Suc (size_list size xs)"
  by (metis less_Suc_eq_le nth_mem size_list_estimation' order_refl)

lemma size_prop_get_less:
  "size (prop_get props key) < Suc (size_list (size_prod (\<lambda>k. 0) size) props)"
proof (cases "map_of props key")
  case None
  then show ?thesis by (simp add: prop_get_def)
next
  case (Some v)
  then have "(key, v) \<in> set props" by (rule map_of_SomeD)
  then have "size_prod (\<lambda>k. 0) size (key, v) \<le> size_list (size_prod (\<lambda>k. 0) size) props"
    by (rule size_list_estimation') simp
  then show ?thesis using Some by (simp add: prop_get_def)
qed

function (sequential) render :: "store \<Rightarrow> json \<Rightarrow> jsstring list \<Rightarrow> label option \<Rightarrow> bool \<Rightarrow> row list" where
  "render st (JArr xs) paths label hide =
     (let s = st paths;
          collapsed = \<not> expanded s;
          rows = (if label \<noteq> None then [nodeRow (JArr xs) s paths label hide] else [])
      in if \<not> collapsed \<or> hasBeenExpanded s then
           (let maxItem = (if 0 \<le> page s then Some (PAGE_SIZE * (page s + 1)) else None);
                rows = for_keys 0 (length xs) maxItem
                         (\<lambda>key. render st (xs ! key)
                                  (paths @ [ascii ''['' @ show_nat key @ ascii '']''])
                                  (Some (LNum key)) (hide \<or> collapsed))
                         rows
            in case maxItem of
                 None \<Rightarrow> rows
               | Some m \<Rightarrow>
                   if length xs > m then
                     (let nextBatch = min (length xs - m) PAGE_SIZE
                      in rows @
                         [TrNext (length paths)
                            (show_nat m @ [ellipsis] @ show_nat (length xs - 1))
                            (HandleNextPage paths)
                            (ascii ''Show '' @
                               (if nextBatch = PAGE_SIZE then show_nat nextBatch @ ascii '' More''
                                else ascii ''Remaining''))])
                   else rows)
         else rows)"
| "render st (JObj props) paths label hide =
     (let s = st paths;
          collapsed = \<not> expanded s;
          rows = (if label \<noteq> None then [nodeRow (JObj props) s paths label hide] else [])
      in if \<not> collapsed \<or> hasBeenExpanded s then
           foldl (\<lambda>rows key. rows @ render st (prop_get props key)
                                      (paths @ [ascii ''.'' @ key])
                                      (Some (LStr key)) (hide \<or> collapsed))
                 rows (Object_keys props)
         else rows)"
| "render st value paths label hide =
     [nodeRow value (st paths) paths (if length paths > 0 then label else None) hide]"
  by pat_completeness auto
termination
  by (relation "measure (\<lambda>(st, value, paths, label, hide). size value)")
     (auto simp: size_nth_less size_prop_get_less)

declare render.simps (1,2) [simp del]

text \<open>
  The component \<open>JSONViewer\<close>: \<open>JSON.parse\<close> either returns a value or throws (\<open>None\<close>);
  the root instance has no label, no \<open>hide\<close> and the empty \<open>paths\<close>.
\<close>

definition JSONViewer_render :: "('b \<Rightarrow> json option) \<Rightarrow> store \<Rightarrow> 'b \<Rightarrow> row list" where
  "JSONViewer_render JSON_parse st body =
     (case JSON_parse body of
        Some value \<Rightarrow> render st value [] None False
      | None \<Rightarrow> [TrError (ascii ''Uh Oh!'')])"

subsection \<open>The parts of a rendering\<close>

text \<open>
  Names for the parts of what \<open>render\<close> returns for an array or an object: the node's
  own row, the rows of the elements with indices below \<open>n\<close>, and the rows of the
  properties with the given keys, in that order.
\<close>

definition ownRow :: "store \<Rightarrow> json \<Rightarrow> jsstring list \<Rightarrow> label option \<Rightarrow> bool \<Rightarrow> row list" where
  "ownRow st value paths label hide =
     (if label \<noteq> None then [nodeRow value (st paths) paths label hide] else [])"

definition elementRows :: "store \<Rightarrow> json list \<Rightarrow> jsstring list \<Rightarrow> bool \<Rightarrow> nat \<Rightarrow> row list" where
  "elementRows st xs paths hide n =
     concat (map (\<lambda>key. render st (xs ! key)
                          (paths @ [ascii ''['' @ show_nat key @ ascii '']''])
                          (Some (LNum key)) (hide \<or> \<not> expanded (st paths)))
                 [0..<n])"

definition propertyRows ::
  "store \<Rightarrow> (jsstring \<times> json) list \<Rightarrow> jsstring list \<Rightarrow> bool \<Rightarrow> jsstring list \<Rightarrow> row list" where
  "propertyRows st props paths hide keys =
     concat (map (\<lambda>key. render st (prop_get props key)
                          (paths @ [ascii ''.'' @ key])
                          (Some (LStr key)) (hide \<or> \<not> expanded (st paths)))
                 keys)"

text \<open>
  The row of the element with index \<open>key\<close> of an array, and the row of the property \<open>key\<close>
  of an object, written out field by field: the React key is the joined path, the class
  \<open>hide\<close> comes from the parent, the classes \<open>collapsable\<close> and \<open>collapsed\<close>, the handler
  and the value cell come from the child and its own state, the indentation is the depth
  of the parent, and the label is the index or the key.
\<close>

definition elementRow :: "store \<Rightarrow> json list \<Rightarrow> jsstring list \<Rightarrow> bool \<Rightarrow> nat \<Rightarrow> row" where
  "elementRow st xs paths hide key =
     Tr (concat paths @ ascii ''['' @ show_nat key @ ascii '']'')
        (hide \<or> \<not> expanded (st paths))
        (isCollapsable (xs ! key))
        (\<not> expanded (st (paths @ [ascii ''['' @ show_nat key @ ascii '']''])))
        (int (length paths))
        (if isCollapsable (xs ! key)
         then Some (HandleClickKey (paths @ [ascii ''['' @ show_nat key @ ascii '']'']))
         else None)
        (Some (LNum key))
        (getValue (xs ! key) (\<not> expanded (st (paths @ [ascii ''['' @ show_nat key @ ascii '']'']))))"

definition propertyRow ::
  "store \<Rightarrow> (jsstring \<times> json) list \<Rightarrow> jsstring list \<Rightarrow> bool \<Rightarrow> jsstring \<Rightarrow> row" where
  "propertyRow st props paths hide key =
     Tr (concat paths @ ascii ''.'' @ key)
        (hide \<or> \<not> expanded (st paths))
        (isCollapsable (prop_get props key))
        (\<not> expanded (st (paths @ [ascii ''.'' @ key])))
        (int (length paths))
        (if isCollapsable (prop_get props key)
         then Some (HandleClickKey (paths @ [ascii ''.'' @ key]))
         else None)
        (Some (LStr key))
        (getValue (prop_get props key) (\<not> expanded (st (paths @ [ascii ''.'' @ key]))))"

text \<open>
  The handler that a row registers, if any: on its key cell for the row of a node, on its
  button for the next-page row.
\<close>

fun onClick :: "row \<Rightarrow> handler option" where
  "onClick (Tr k h c1 c2 i oc l v) = oc"
| "onClick (TrNext i r oc c) = Some oc"
| "onClick (TrError t) = None"

text \<open>The nodes of a value: the value itself and the nodes of its elements or properties.\<close>

fun nodes :: "json \<Rightarrow> json list" where
  "nodes (JArr xs) = JArr xs # concat (map nodes xs)"
| "nodes (JObj props) = JObj props # concat (map (\<lambda>p. nodes (snd p)) props)"
| "nodes v = [v]"

section \<open>Facts about the building blocks\<close>

lemma length_Object_keys: "length (Object_keys props) = length props"
proof -
  have "length (filter isArrayIndex (map fst props))
      + length (filter (\<lambda>k. \<not> isArrayIndex k) (map fst props)) = length (map fst props)"
    by (rule sum_length_filter_compl)
  then show ?thesis by (simp add: Object_keys_def Let_def)
qed

lemma mset_filter_both: "mset (filter P ks) + mset (filter (\<lambda>k. \<not> P k) ks) = mset ks"
  by (induction ks) simp_all

lemma mset_Object_keys: "mset (Object_keys props) = mset (map fst props)"
  using mset_filter_both [of isArrayIndex "map fst props"]
  by (simp add: Object_keys_def Let_def del: mset_map)

lemma set_Object_keys: "set (Object_keys props) = fst ` set props"
  by (auto simp: Object_keys_def Let_def)

lemma Object_keys_no_index:
  assumes "\<forall>k \<in> set (map fst props). \<not> isArrayIndex k"
  shows "Object_keys props = map fst props"
proof -
  have "filter isArrayIndex (map fst props) = []"
    using assms by (simp add: filter_empty_conv)
  moreover have "filter (\<lambda>k. \<not> isArrayIndex k) (map fst props) = map fst props"
    using assms by (simp add: filter_id_conv)
  ultimately show ?thesis by (simp add: Object_keys_def Let_def)
qed

lemma foldl_rows:
  "foldl (\<lambda>rows key. rows @ f key) rows ks = rows @ concat (map f ks)"
  by (induction ks arbitrary: rows) simp_all

lemma render_JArr_eq:
  "render st (JArr xs) paths label hide =
     ownRow st (JArr xs) paths label hide @
     (if expanded (st paths) \<or> hasBeenExpanded (st paths) then
        elementRows st xs paths hide (min (length xs) (PAGE_SIZE * (page (st paths) + 1))) @
        (if PAGE_SIZE * (page (st paths) + 1) < length xs then
           [TrNext (length paths)
              (show_nat (PAGE_SIZE * (page (st paths) + 1)) @ [ellipsis] @ show_nat (length xs - 1))
              (HandleNextPage paths)
              (ascii ''Show '' @
                 (if min (length xs - PAGE_SIZE * (page (st paths) + 1)) PAGE_SIZE = PAGE_SIZE
                  then show_nat (min (length xs - PAGE_SIZE * (page (st paths) + 1)) PAGE_SIZE)
                         @ ascii '' More''
                  else ascii ''Remaining''))]
         else [])
      else [])"
  by (simp add: render.simps(1) Let_def for_keys_eq upper_def ownRow_def elementRows_def)

lemma render_JObj_eq:
  "render st (JObj props) paths label hide =
     ownRow st (JObj props) paths label hide @
     (if expanded (st paths) \<or> hasBeenExpanded (st paths) then
        propertyRows st props paths hide (Object_keys props)
      else [])"
  by (simp add: render.simps(2) Let_def foldl_rows ownRow_def propertyRows_def)

lemma render_scalar_eq:
  assumes "getType value \<noteq> TArray" "getType value \<noteq> TObject"
  shows "render st value paths label hide =
           [nodeRow value (st paths) paths (if length paths > 0 then label else None) hide]"
  using assms by (cases "value") simp_all




lemma render_induct [case_names Arr Obj Scalar]:
  fixes st :: store
  assumes arr: "\<And>(st :: store) xs paths label hide.
      (\<And>k. expanded (st paths) \<or> hasBeenExpanded (st paths) \<Longrightarrow> k < length xs \<Longrightarrow>
         P st (xs ! k) (paths @ [ascii ''['' @ show_nat k @ ascii '']'']) (Some (LNum k))
           (hide \<or> \<not> expanded (st paths)))
      \<Longrightarrow> P st (JArr xs) paths label hide"
    and obj: "\<And>(st :: store) props paths label hide.
      (\<And>key. expanded (st paths) \<or> hasBeenExpanded (st paths) \<Longrightarrow> key \<in> set (Object_keys props) \<Longrightarrow>
         P st (prop_get props key) (paths @ [ascii ''.'' @ key]) (Some (LStr key))
           (hide \<or> \<not> expanded (st paths)))
      \<Longrightarrow> P st (JObj props) paths label hide"
    and scalar: "\<And>(st :: store) v paths label hide.
      getType v \<noteq> TArray \<Longrightarrow> getType v \<noteq> TObject \<Longrightarrow> P st v paths label hide"
  shows "P st v paths label hide"
proof (induction st v paths label hide rule: render.induct)
  case (1 st xs paths label hide)
  show ?case by (rule arr) (rule "1.IH", simp_all)
next
  case (2 st props paths label hide)
  show ?case by (rule obj) (rule "2.IH", simp_all)
qed (simp_all add: scalar)

text \<open>Membership in the parts.\<close>

lemma in_elementRows:
  "r \<in> set (elementRows st xs paths hide n) \<longleftrightarrow>
     (\<exists>k < n. r \<in> set (render st (xs ! k) (paths @ [ascii ''['' @ show_nat k @ ascii '']''])
                           (Some (LNum k)) (hide \<or> \<not> expanded (st paths))))"
  by (auto simp: elementRows_def)

lemma in_propertyRows:
  "r \<in> set (propertyRows st props paths hide keys) \<longleftrightarrow>
     (\<exists>key \<in> set keys. r \<in> set (render st (prop_get props key) (paths @ [ascii ''.'' @ key])
                           (Some (LStr key)) (hide \<or> \<not> expanded (st paths))))"
  by (auto simp: propertyRows_def)

lemma in_render_JArr:
  assumes "r \<in> set (render st (JArr xs) paths label hide)"
  shows "r = nodeRow (JArr xs) (st paths) paths label hide
       \<or> ((expanded (st paths) \<or> hasBeenExpanded (st paths)) \<and>
          (\<exists>k < length xs. r \<in> set (render st (xs ! k) (paths @ [ascii ''['' @ show_nat k @ ascii '']''])
                           (Some (LNum k)) (hide \<or> \<not> expanded (st paths)))))
       \<or> (PAGE_SIZE < length xs \<and> (\<exists>i rg c. r = TrNext i rg (HandleNextPage paths) c))"
proof -
  from assms consider
      "r \<in> set (ownRow st (JArr xs) paths label hide)"
    | n where "expanded (st paths) \<or> hasBeenExpanded (st paths)"
        "r \<in> set (elementRows st xs paths hide (min (length xs) n))"
    | i rg c where "PAGE_SIZE * (page (st paths) + 1) < length xs"
        "r = TrNext i rg (HandleNextPage paths) c"
    unfolding render_JArr_eq by (auto split: if_splits)
  then show ?thesis
  proof cases
    case 1
    then show ?thesis by (simp add: ownRow_def split: if_splits)
  next
    case 2
    then show ?thesis by (auto simp: in_elementRows)
  next
    case 3
    then have "PAGE_SIZE < length xs" by simp
    with 3 show ?thesis by blast
  qed
qed

lemma in_render_JObj:
  assumes "r \<in> set (render st (JObj props) paths label hide)"
  shows "r = nodeRow (JObj props) (st paths) paths label hide
       \<or> ((expanded (st paths) \<or> hasBeenExpanded (st paths)) \<and>
          (\<exists>key \<in> set (Object_keys props).
              r \<in> set (render st (prop_get props key) (paths @ [ascii ''.'' @ key])
                           (Some (LStr key)) (hide \<or> \<not> expanded (st paths)))))"
proof -
  from assms consider
      "r \<in> set (ownRow st (JObj props) paths label hide)"
    | "expanded (st paths) \<or> hasBeenExpanded (st paths)"
        "r \<in> set (propertyRows st props paths hide (Object_keys props))"
    unfolding render_JObj_eq by (auto split: if_splits)
  then show ?thesis
  proof cases
    case 1
    then show ?thesis by (simp add: ownRow_def split: if_splits)
  next
    case 2
    then show ?thesis by (auto simp: in_propertyRows)
  qed
qed

lemma prop_get_in_nodes:
  assumes "key \<in> set (Object_keys props)"
  shows "prop_get props key \<in> snd ` set props"
proof -
  from assms have "key \<in> fst ` set props" by (simp add: set_Object_keys)
  then obtain v where "map_of props key = Some v"
    by (metis domD dom_map_of_conv_image_fst)
  then show ?thesis
    by (auto simp: prop_get_def dest: map_of_SomeD intro: rev_image_eqI)
qed

text \<open>
  Every row that \<open>render\<close> returns is the row of a node of the value, with a \<open>hide\<close> class
  when the instance is rendered with \<open>hide\<close>, or the row of a next-page button.
\<close>

lemma render_rows:
  assumes "r \<in> set (render st v paths label hide)"
  shows "(\<exists>w q sh h. r = nodeRow w (st (paths @ q)) (paths @ q) sh h \<and> (hide \<longrightarrow> h) \<and> w \<in> set (nodes v))
       \<or> (\<exists>i rg q c xs. r = TrNext i rg (HandleNextPage (paths @ q)) c
              \<and> JArr xs \<in> set (nodes v) \<and> PAGE_SIZE < length xs)"
  using assms
proof (induction st v paths label hide arbitrary: r rule: render_induct)
  case (Arr st xs paths label hide)
  from in_render_JArr [OF Arr.prems] consider
      "r = nodeRow (JArr xs) (st paths) paths label hide"
    | k where "expanded (st paths) \<or> hasBeenExpanded (st paths)" "k < length xs"
        "r \<in> set (render st (xs ! k) (paths @ [ascii ''['' @ show_nat k @ ascii '']''])
                           (Some (LNum k)) (hide \<or> \<not> expanded (st paths)))"
    | i rg c where "PAGE_SIZE < length xs" "r = TrNext i rg (HandleNextPage paths) c"
    by blast
  then show ?case
  proof cases
    case 1
    then have "r = nodeRow (JArr xs) (st (paths @ [])) (paths @ []) label hide \<and> (hide \<longrightarrow> hide)
        \<and> JArr xs \<in> set (nodes (JArr xs))" by simp
    then show ?thesis by blast
  next
    case 2
    let ?seg = "ascii ''['' @ show_nat k @ ascii '']''"
    from Arr.IH [OF 2] show ?thesis
    proof
      assume "\<exists>w q sh h. r = nodeRow w (st ((paths @ [?seg]) @ q)) ((paths @ [?seg]) @ q) sh h \<and>
         (hide \<or> \<not> expanded (st paths) \<longrightarrow> h) \<and> w \<in> set (nodes (xs ! k))"
      then obtain w q sh h where
        "r = nodeRow w (st (paths @ (?seg # q))) (paths @ (?seg # q)) sh h"
        "hide \<longrightarrow> h" "w \<in> set (nodes (xs ! k))" by auto
      moreover have "w \<in> set (nodes (JArr xs))"
        using \<open>w \<in> set (nodes (xs ! k))\<close> \<open>k < length xs\<close> by (auto intro: nth_mem)
      ultimately show ?thesis by blast
    next
      assume "\<exists>i rg q c ys. r = TrNext i rg (HandleNextPage ((paths @ [?seg]) @ q)) c
                \<and> JArr ys \<in> set (nodes (xs ! k)) \<and> PAGE_SIZE < length ys"
      then obtain i rg q c ys where "r = TrNext i rg (HandleNextPage (paths @ (?seg # q))) c"
        "JArr ys \<in> set (nodes (xs ! k))" "PAGE_SIZE < length ys"
        by auto
      moreover have "JArr ys \<in> set (nodes (JArr xs))"
        using \<open>JArr ys \<in> set (nodes (xs ! k))\<close> \<open>k < length xs\<close> by (auto intro: nth_mem)
      ultimately show ?thesis by blast
    qed
  next
    case 3
    then have "r = TrNext i rg (HandleNextPage (paths @ [])) c
        \<and> JArr xs \<in> set (nodes (JArr xs)) \<and> PAGE_SIZE < length xs" by simp
    then show ?thesis by blast
  qed
next
  case (Obj st props paths label hide)
  from in_render_JObj [OF Obj.prems] consider
      "r = nodeRow (JObj props) (st paths) paths label hide"
    | key where "expanded (st paths) \<or> hasBeenExpanded (st paths)" "key \<in> set (Object_keys props)"
        "r \<in> set (render st (prop_get props key) (paths @ [ascii ''.'' @ key])
                           (Some (LStr key)) (hide \<or> \<not> expanded (st paths)))"
    by blast
  then show ?case
  proof cases
    case 1
    then have "r = nodeRow (JObj props) (st (paths @ [])) (paths @ []) label hide \<and> (hide \<longrightarrow> hide)
        \<and> JObj props \<in> set (nodes (JObj props))" by simp
    then show ?thesis by blast
  next
    case 2
    let ?seg = "ascii ''.'' @ key"
    from Obj.IH [OF 2] show ?thesis
    proof
      assume "\<exists>w q sh h. r = nodeRow w (st ((paths @ [?seg]) @ q)) ((paths @ [?seg]) @ q) sh h \<and>
         (hide \<or> \<not> expanded (st paths) \<longrightarrow> h) \<and> w \<in> set (nodes (prop_get props key))"
      then obtain w q sh h where
        "r = nodeRow w (st (paths @ (?seg # q))) (paths @ (?seg # q)) sh h"
        "hide \<longrightarrow> h" "w \<in> set (nodes (prop_get props key))" by auto
      moreover have "w \<in> set (nodes (JObj props))"
      proof -
        from prop_get_in_nodes [OF 2(2)] obtain p where "p \<in> set props" "prop_get props key = snd p"
          by auto
        with \<open>w \<in> set (nodes (prop_get props key))\<close> show ?thesis by auto
      qed
      ultimately show ?thesis by blast
    next
      assume "\<exists>i rg q c ys. r = TrNext i rg (HandleNextPage ((paths @ [?seg]) @ q)) c
                \<and> JArr ys \<in> set (nodes (prop_get props key)) \<and> PAGE_SIZE < length ys"
      then obtain i rg q c ys where "r = TrNext i rg (HandleNextPage (paths @ (?seg # q))) c"
        "JArr ys \<in> set (nodes (prop_get props key))" "PAGE_SIZE < length ys"
        by auto
      moreover have "JArr ys \<in> set (nodes (JObj props))"
      proof -
        from prop_get_in_nodes [OF 2(2)] obtain p where "p \<in> set props" "prop_get props key = snd p"
          by auto
        with \<open>JArr ys \<in> set (nodes (prop_get props key))\<close> show ?thesis by auto
      qed
      ultimately show ?thesis by blast
    qed
  qed
next
  case (Scalar st v paths label hide)
  then have "r = nodeRow v (st (paths @ [])) (paths @ []) (if length paths > 0 then label else None) hide
      \<and> (hide \<longrightarrow> hide) \<and> v \<in> set (nodes v)"
    by (cases v) (simp_all add: render_scalar_eq)
  then show ?case by blast
qed

text \<open>
  A component with a label, below the root, returns its own row first; the rows of its
  descendants follow.
\<close>

lemma render_labelled_head:
  assumes "paths \<noteq> []"
  shows "\<exists>rest. render st v paths (Some l) hide = nodeRow v (st paths) paths (Some l) hide # rest"
proof (cases v)
  case (JArr xs)
  then show ?thesis by (simp add: render_JArr_eq ownRow_def)
next
  case (JObj props)
  then show ?thesis by (simp add: render_JObj_eq ownRow_def)
qed (use assms in simp_all)

lemma elementRow_nodeRow:
  "elementRow st xs paths hide key =
     nodeRow (xs ! key) (st (paths @ [ascii ''['' @ show_nat key @ ascii '']'']))
       (paths @ [ascii ''['' @ show_nat key @ ascii '']''])
       (Some (LNum key)) (hide \<or> \<not> expanded (st paths))"
  by (simp add: elementRow_def nodeRow_def Let_def)

lemma propertyRow_nodeRow:
  "propertyRow st props paths hide key =
     nodeRow (prop_get props key) (st (paths @ [ascii ''.'' @ key]))
       (paths @ [ascii ''.'' @ key])
       (Some (LStr key)) (hide \<or> \<not> expanded (st paths))"
  by (simp add: propertyRow_def nodeRow_def Let_def)

lemma element_head:
  "\<exists>rest. render st (xs ! key) (paths @ [ascii ''['' @ show_nat key @ ascii '']''])
             (Some (LNum key)) (hide \<or> \<not> expanded (st paths))
          = elementRow st xs paths hide key # rest"
  unfolding elementRow_nodeRow by (rule render_labelled_head) simp

lemma property_head:
  "\<exists>rest. render st (prop_get props key) (paths @ [ascii ''.'' @ key])
             (Some (LStr key)) (hide \<or> \<not> expanded (st paths))
          = propertyRow st props paths hide key # rest"
  unfolding propertyRow_nodeRow by (rule render_labelled_head) simp

lemma length_concat_nonempty:
  "(\<And>x. x \<in> set xs \<Longrightarrow> f x \<noteq> []) \<Longrightarrow> length xs \<le> length (concat (map f xs))"
proof (induction xs)
  case Nil
  show ?case by simp
next
  case (Cons x xs)
  have "f x \<noteq> []" by (rule Cons.prems) simp
  then have "1 \<le> length (f x)" by (cases "f x") simp_all
  moreover have "length xs \<le> length (concat (map f xs))"
    by (rule Cons.IH) (simp add: Cons.prems)
  ultimately show ?case by simp
qed

lemma length_elementRows_ge: "n \<le> length (elementRows st xs paths hide n)"
proof -
  have "length [0..<n] \<le> length (elementRows st xs paths hide n)"
    unfolding elementRows_def
  proof (rule length_concat_nonempty)
    fix key
    from element_head [of st xs key paths hide]
    show "render st (xs ! key) (paths @ [ascii ''['' @ show_nat key @ ascii '']''])
             (Some (LNum key)) (hide \<or> \<not> expanded (st paths)) \<noteq> []"
      by auto
  qed
  then show ?thesis by simp
qed

lemma length_propertyRows_ge: "length keys \<le> length (propertyRows st props paths hide keys)"
  unfolding propertyRows_def
proof (rule length_concat_nonempty)
  fix key
  from property_head [of st props key paths hide]
  show "render st (prop_get props key) (paths @ [ascii ''.'' @ key])
             (Some (LStr key)) (hide \<or> \<not> expanded (st paths)) \<noteq> []"
    by auto
qed

text \<open>Children that are neither arrays nor objects give one row each.\<close>

lemma elementRows_scalar_rows:
  assumes "\<forall>x \<in> set xs. getType x \<noteq> TArray \<and> getType x \<noteq> TObject" "n \<le> length xs"
  shows "elementRows st xs paths hide n = map (elementRow st xs paths hide) [0..<n]"
proof -
  have "render st (xs ! key) (paths @ [ascii ''['' @ show_nat key @ ascii '']''])
          (Some (LNum key)) (hide \<or> \<not> expanded (st paths))
      = [elementRow st xs paths hide key]"
    if "key < n" for key
  proof -
    from that assms(2) have "xs ! key \<in> set xs" by simp
    with assms(1) show ?thesis by (simp add: render_scalar_eq elementRow_nodeRow)
  qed
  then have eq: "map (\<lambda>key. render st (xs ! key) (paths @ [ascii ''['' @ show_nat key @ ascii '']''])
          (Some (LNum key)) (hide \<or> \<not> expanded (st paths))) [0..<n]
     = map (\<lambda>key. [elementRow st xs paths hide key]) [0..<n]"
    by (intro map_cong) simp_all
  show ?thesis
    by (simp only: elementRows_def eq concat_map_singleton)
qed

lemma prop_get_scalar:
  assumes "\<forall>p \<in> set props. getType (snd p) \<noteq> TArray \<and> getType (snd p) \<noteq> TObject"
  shows "getType (prop_get props key) \<noteq> TArray \<and> getType (prop_get props key) \<noteq> TObject"
proof (cases "map_of props key")
  case None
  then show ?thesis by (simp add: prop_get_def)
next
  case (Some v)
  then have "(key, v) \<in> set props" by (rule map_of_SomeD)
  with assms have "getType v \<noteq> TArray \<and> getType v \<noteq> TObject" by fastforce
  with Some show ?thesis by (simp add: prop_get_def)
qed

lemma propertyRows_scalar_rows:
  assumes "\<forall>p \<in> set props. getType (snd p) \<noteq> TArray \<and> getType (snd p) \<noteq> TObject"
  shows "propertyRows st props paths hide keys = map (propertyRow st props paths hide) keys"
proof -
  have "render st (prop_get props key) (paths @ [ascii ''.'' @ key])
          (Some (LStr key)) (hide \<or> \<not> expanded (st paths))
      = [propertyRow st props paths hide key]" for key
    using prop_get_scalar [OF assms, of key] by (simp add: render_scalar_eq propertyRow_nodeRow)
  then show ?thesis
    by (simp add: propertyRows_def concat_map_singleton)
qed

lemma prop_get_own:
  assumes "distinct (map fst props)" "p \<in> set props"
  shows "prop_get props (fst p) = snd p"
proof -
  from assms have "map_of props (fst p) = Some (snd p)"
    by (cases p) (simp add: map_of_eq_Some_iff)
  then show ?thesis by (simp add: prop_get_def)
qed

lemma ownRow_Tr:
  "ownRow st value paths label hide =
     (if label \<noteq> None then
        [Tr (concat paths) hide (isCollapsable value) (\<not> expanded (st paths))
            (int (length paths) - 1)
            (if isCollapsable value then Some (HandleClickKey paths) else None)
            label (getValue value (\<not> expanded (st paths)))]
      else [])"
  by (simp add: ownRow_def nodeRow_def Let_def)

section \<open>Collapsible values\<close>

text \<open>
  C8: a value is collapsible exactly when it is a string of more than 100 code units, an
  array with at least one element or an object with at least one key; null, booleans,
  numbers, short strings and empty collections are not.
\<close>

theorem isCollapsable_iff:
  "isCollapsable v =
     ((\<exists>s. v = JStr s \<and> 100 < length s) \<or>
      (\<exists>xs. v = JArr xs \<and> 1 \<le> length xs) \<or>
      (\<exists>props. v = JObj props \<and> 1 \<le> length props))"
  by (cases v) (auto simp: isCollapsable_def MAX_VALUE_LENGTH_def length_Object_keys Suc_le_eq)

theorem isCollapsable_iff_witness:
  "isCollapsable (JArr [JNull]) \<and> \<not> isCollapsable (JArr []) \<and> \<not> isCollapsable (JObj [])
   \<and> isCollapsable (JObj [(ascii ''a'', JNull)]) \<and> \<not> isCollapsable (JStr (replicate 100 0x61))
   \<and> isCollapsable (JStr (replicate 101 0x61)) \<and> \<not> isCollapsable JNull
   \<and> \<not> isCollapsable (JBool True) \<and> \<not> isCollapsable (JNum (ascii ''12''))"
  using isCollapsable_iff [of "JArr [JNull]"] isCollapsable_iff [of "JArr []"]
    isCollapsable_iff [of "JObj []"] isCollapsable_iff [of "JObj [(ascii ''a'', JNull)]"]
    isCollapsable_iff [of "JStr (replicate 100 0x61)"] isCollapsable_iff [of "JStr (replicate 101 0x61)"]
    isCollapsable_iff [of JNull] isCollapsable_iff [of "JBool True"]
    isCollapsable_iff [of "JNum (ascii ''12'')"]
  by simp

section \<open>Truncation of long strings\<close>

text \<open>
  C2: the row of a string of more than 100 code units shows, when the node is collapsed,
  the first 45 code units, one ellipsis and the last 45 code units, 91 in all, the two
  segments being the two ends of the string; when the node is expanded it shows the
  whole string.
\<close>

theorem long_string_value_cell:
  "100 < length s \<Longrightarrow>
     map rowValue (render st (JStr s) paths label hide) =
       [Some (TdValue TString
          (if expanded (st paths) then s
           else take 45 s @ [ellipsis] @ drop (length s - 45) s))]
     \<and> length (take 45 s @ [ellipsis] @ drop (length s - 45) s) = 91
     \<and> s = take 45 s @ take (length s - 90) (drop 45 s) @ drop (length s - 45) s"
proof (intro conjI)
  assume len: "100 < length s"
  show "map rowValue (render st (JStr s) paths label hide) =
       [Some (TdValue TString
          (if expanded (st paths) then s
           else take 45 s @ [ellipsis] @ drop (length s - 45) s))]"
    using len by (simp add: nodeRow_def Let_def getValue_scalar_def MAX_VALUE_LENGTH_def)
  show "length (take 45 s @ [ellipsis] @ drop (length s - 45) s) = 91"
    using len by simp
  have "take (length s - 90) (drop 45 s) @ drop (length s - 45) s = drop 45 s"
  proof -
    have "drop (length s - 45) s = drop (length s - 90) (drop 45 s)"
      using len by simp
    then show ?thesis by (simp only: append_take_drop_id)
  qed
  then show "s = take 45 s @ take (length s - 90) (drop 45 s) @ drop (length s - 45) s"
    by simp
qed

theorem long_string_value_cell_witness:
  "100 < length (replicate 250 (0x61 :: jschar))
   \<and> map rowValue (render initial_store (JStr (replicate 250 0x61)) [ascii ''.a'']
                     (Some (LStr (ascii ''a''))) False)
       = [Some (TdValue TString (replicate 45 0x61 @ [ellipsis] @ replicate 45 0x61))]
   \<and> map rowValue (render initial_store (JStr (replicate 250 0x61)) [] None False)
       = [Some (TdValue TString (replicate 250 0x61))]"
  using long_string_value_cell [of "replicate 250 0x61" initial_store "[ascii ''.a'']"
          "Some (LStr (ascii ''a''))" False, THEN conjunct1]
        long_string_value_cell [of "replicate 250 0x61" initial_store "[]" None False,
          THEN conjunct1]
  by (simp add: initial_store_def constructor_def)

section \<open>The handlers\<close>

lemma hasBeenExpanded_dispatch:
  "hasBeenExpanded (st q) \<Longrightarrow> hasBeenExpanded (dispatch st h q)"
  by (cases h) (auto simp: handleClickKey_def handleNextPage_def)

lemma hasBeenExpanded_dispatches:
  "hasBeenExpanded (st q) \<Longrightarrow> hasBeenExpanded (foldl dispatch st hs q)"
  by (induction hs arbitrary: st) (simp_all add: hasBeenExpanded_dispatch)

lemma page_dispatch: "page (st q) \<le> page (dispatch st h q)"
  by (cases h) (auto simp: handleClickKey_def handleNextPage_def)

lemma page_dispatches: "page (st q) \<le> page (foldl dispatch st hs q)"
proof (induction hs arbitrary: st)
  case Nil
  show ?case by simp
next
  case (Cons h hs)
  have "page (st q) \<le> page (dispatch st h q)" by (rule page_dispatch)
  also have "\<dots> \<le> page (foldl dispatch (dispatch st h) hs q)" by (rule Cons.IH)
  finally show ?case by simp
qed

lemma onClick_nodeRow:
  "onClick (nodeRow w s p sh h) = (if isCollapsable w then Some (HandleClickKey p) else None)"
  by (simp add: nodeRow_def Let_def)

text \<open>
  C6: the toggle handler flips \<open>expanded\<close> and sets \<open>hasBeenExpanded\<close>; no sequence of
  handlers resets \<open>hasBeenExpanded\<close>; and a row registers the toggle handler exactly when
  it is the row of a collapsible node.
\<close>

theorem toggle_action:
  "expanded (dispatch st (HandleClickKey p) p) = (\<not> expanded (st p))
   \<and> hasBeenExpanded (dispatch st (HandleClickKey p) p)
   \<and> (hasBeenExpanded (st q) \<longrightarrow> hasBeenExpanded (foldl dispatch st hs q))
   \<and> onClick (nodeRow w s p sh h) = (if isCollapsable w then Some (HandleClickKey p) else None)
   \<and> (r \<in> set (render st v paths label hide) \<and> onClick r = Some (HandleClickKey p') \<longrightarrow>
        (\<exists>w \<in> set (nodes v). isCollapsable w \<and> (\<exists>sh h. r = nodeRow w (st p') p' sh h)))"
proof (intro conjI impI)
  show "expanded (dispatch st (HandleClickKey p) p) = (\<not> expanded (st p))"
    by (simp add: handleClickKey_def)
  show "hasBeenExpanded (dispatch st (HandleClickKey p) p)"
    by (simp add: handleClickKey_def)
  show "hasBeenExpanded (foldl dispatch st hs q)" if "hasBeenExpanded (st q)"
    using that by (rule hasBeenExpanded_dispatches)
  show "onClick (nodeRow w s p sh h) = (if isCollapsable w then Some (HandleClickKey p) else None)"
    by (rule onClick_nodeRow)
  show "\<exists>w \<in> set (nodes v). isCollapsable w \<and> (\<exists>sh h. r = nodeRow w (st p') p' sh h)"
    if asm: "r \<in> set (render st v paths label hide) \<and> onClick r = Some (HandleClickKey p')"
  proof -
    from asm have mem: "r \<in> set (render st v paths label hide)"
      and click: "onClick r = Some (HandleClickKey p')" by simp_all
    from render_rows [OF mem] show ?thesis
    proof
      assume "\<exists>w q sh h. r = nodeRow w (st (paths @ q)) (paths @ q) sh h \<and> (hide \<longrightarrow> h)
                \<and> w \<in> set (nodes v)"
      then obtain w q sh h where r: "r = nodeRow w (st (paths @ q)) (paths @ q) sh h"
        and w: "w \<in> set (nodes v)" by blast
      from click r have "isCollapsable w \<and> p' = paths @ q"
        by (simp add: onClick_nodeRow split: if_splits)
      with r w show ?thesis by blast
    next
      assume "\<exists>i rg q c xs. r = TrNext i rg (HandleNextPage (paths @ q)) c
                \<and> JArr xs \<in> set (nodes v) \<and> PAGE_SIZE < length xs"
      with click show ?thesis by auto
    qed
  qed
qed

theorem toggle_action_witness:
  "expanded (dispatch initial_store (HandleClickKey [ascii ''.a'']) [ascii ''.a''])
   \<and> hasBeenExpanded (foldl dispatch initial_store
        [HandleClickKey [ascii ''.a''], HandleNextPage [ascii ''.a''], HandleClickKey [ascii ''.a'']]
        [ascii ''.a''])
   \<and> onClick (nodeRow (JArr []) (constructor [ascii ''.a'']) [ascii ''.a''] (Some (LStr (ascii ''a''))) False) = None
   \<and> (\<exists>w \<in> set (nodes (JObj [(ascii ''a'', JArr [JNull])])). isCollapsable w)"
proof -
  let ?p = "[ascii ''.a'']"
  let ?st = "dispatch initial_store (HandleClickKey ?p)"
  let ?v = "JObj [(ascii ''a'', JArr [JNull])]"
  let ?r = "nodeRow (JArr [JNull]) (initial_store ?p) ?p (Some (LStr (ascii ''a''))) False"
  have noidx: "\<not> isArrayIndex (ascii ''a'')"
    by (simp add: isArrayIndex_def ascii_def isDigit_def)
  have mem: "?r \<in> set (render initial_store ?v [] None False)"
    by (simp add: render_JObj_eq render_JArr_eq ownRow_def propertyRows_def Object_keys_def
          noidx prop_get_def initial_store_def constructor_def ascii_def)
  have click: "onClick ?r = Some (HandleClickKey ?p)"
    by (simp add: onClick_nodeRow isCollapsable_def)
  have hbe: "hasBeenExpanded (?st ?p)"
    by (simp add: handleClickKey_def)
  note t = toggle_action [of initial_store ?p ?p "[]" "JArr []" "constructor ?p" "Some (LStr (ascii ''a''))"
      False ?r ?v "[]" None False ?p]
  note t2 = toggle_action [of ?st ?p ?p "[HandleNextPage ?p, HandleClickKey ?p]" "JArr []" "constructor ?p"
      "Some (LStr (ascii ''a''))" False ?r ?v "[]" None False ?p]
  have 1: "expanded (dispatch initial_store (HandleClickKey ?p) ?p)"
    using t by (simp add: initial_store_def constructor_def ascii_def)
  have 2: "hasBeenExpanded (foldl dispatch ?st [HandleNextPage ?p, HandleClickKey ?p] ?p)"
    using t2 hbe by blast
  have 3: "onClick (nodeRow (JArr []) (constructor ?p) ?p (Some (LStr (ascii ''a''))) False) = None"
    using t by (simp add: isCollapsable_def)
  have 4: "\<exists>w \<in> set (nodes ?v). isCollapsable w"
    using t mem click by blast
  from 1 2 3 4 show ?thesis by simp
qed

text \<open>
  C9: \<open>page\<close> starts at 0 and never decreases; the toggle handler leaves it alone, and the
  next-page handler adds exactly 1 to it and changes nothing else, neither the other
  fields of the instance nor the state of any other instance.
\<close>

theorem page_counter:
  "page (constructor paths) = 0
   \<and> page (initial_store paths) = 0
   \<and> page (st q) \<le> page (foldl dispatch st hs q)
   \<and> page (dispatch st (HandleClickKey p) q) = page (st q)
   \<and> dispatch st (HandleNextPage p) p = (st p)\<lparr>page := page (st p) + 1\<rparr>
   \<and> expanded (dispatch st (HandleNextPage p) p) = expanded (st p)
   \<and> hasBeenExpanded (dispatch st (HandleNextPage p) p) = hasBeenExpanded (st p)
   \<and> (q \<noteq> p \<longrightarrow> dispatch st (HandleNextPage p) q = st q)"
  by (simp add: constructor_def initial_store_def handleNextPage_def handleClickKey_def
        page_dispatches)

theorem page_counter_witness:
  "page (dispatch initial_store (HandleNextPage []) []) = 1
   \<and> expanded (dispatch initial_store (HandleNextPage []) [])
   \<and> dispatch initial_store (HandleNextPage []) [ascii ''[0]''] = initial_store [ascii ''[0]'']"
  using page_counter [of "[]" initial_store "[ascii ''[0]'']" "[]" "[]"]
  by (simp add: initial_store_def constructor_def ascii_def)

section \<open>Input that does not parse\<close>

lemma render_no_error: "r \<in> set (render st v paths label hide) \<Longrightarrow> \<not> isError r"
  using render_rows [of r st v paths label hide] by (auto simp: nodeRow_def Let_def)

text \<open>
  C7: when \<open>JSON.parse\<close> throws, the viewer returns the single row with the text
  \<open>Uh Oh!\<close> and renders no node; when it returns a value, the viewer returns the rows of
  that value, none of which is the error row.
\<close>

theorem parse_failure_row:
  "(JSON_parse body = None \<longrightarrow>
      JSONViewer_render JSON_parse st body = [TrError (ascii ''Uh Oh!'')])
   \<and> (JSON_parse body = Some v \<longrightarrow>
        JSONViewer_render JSON_parse st body = render st v [] None False
        \<and> (\<forall>r \<in> set (JSONViewer_render JSON_parse st body). \<not> isError r))"
  by (auto simp: JSONViewer_render_def dest: render_no_error)

theorem parse_failure_row_witness:
  "JSONViewer_render (\<lambda>b. if b = ''null'' then Some JNull else None) initial_store ''{not json''
     = [TrError (ascii ''Uh Oh!'')]
   \<and> \<not> list_ex isError (JSONViewer_render (\<lambda>b. if b = ''null'' then Some JNull else None)
                    initial_store ''null'')"
  using parse_failure_row [of "\<lambda>b. if b = ''null'' then Some JNull else None" "''{not json''"
          initial_store JNull]
        parse_failure_row [of "\<lambda>b. if b = ''null'' then Some JNull else None" "''null''"
          initial_store JNull]
  by (simp add: list_ex_iff)


section \<open>Pagination of arrays\<close>

lemma show_nat_25: "show_nat 25 = ascii ''25''"
  and show_nat_50: "show_nat 50 = ascii ''50''"
  and show_nat_59: "show_nat 59 = ascii ''59''"
  by (simp_all add: show_nat.simps [of 25] show_nat.simps [of 50] show_nat.simps [of 59]
        show_nat.simps [of 2] show_nat.simps [of 5] ascii_def)

lemma ascii_append: "ascii (a @ b) = ascii a @ ascii b"
  by (simp add: ascii_def)

lemma render_JArr_shown:
  assumes "expanded (st paths) \<or> hasBeenExpanded (st paths)"
  shows "render st (JArr xs) paths label hide =
     ownRow st (JArr xs) paths label hide @
     elementRows st xs paths hide (min (length xs) (25 * (page (st paths) + 1))) @
     (if 25 * (page (st paths) + 1) < length xs then
        [TrNext (length paths)
           (show_nat (25 * (page (st paths) + 1)) @ [ellipsis] @ show_nat (length xs - 1))
           (HandleNextPage paths)
           (if 25 \<le> length xs - 25 * (page (st paths) + 1)
            then ascii ''Show 25 More'' else ascii ''Show Remaining'')]
      else [])"
proof -
  have more: "ascii ''Show '' @ show_nat 25 @ ascii '' More'' = ascii ''Show 25 More''"
    by (simp add: show_nat_25 flip: ascii_append)
  have rest: "ascii ''Show '' @ ascii ''Remaining'' = ascii ''Show Remaining''"
    by (simp flip: ascii_append)
  show ?thesis
  proof (cases "25 \<le> length xs - 25 * (page (st paths) + 1)")
    case True
    then have "min (length xs - 25 * (page (st paths) + 1)) 25 = 25" by simp
    with True assms show ?thesis
      by (simp add: render_JArr_eq PAGE_SIZE_def more)
  next
    case False
    then have "min (length xs - 25 * (page (st paths) + 1)) 25 \<noteq> 25" by simp
    with False assms show ?thesis
      by (simp add: render_JArr_eq PAGE_SIZE_def rest)
  qed
qed

text \<open>
  C1: when the children of an array are rendered, its rows are its own row (if it has a
  label), the rows of the elements with indices below \<open>min(length, 25 * (page + 1))\<close> and,
  if elements remain, one row with the next-page button; a click on the button reveals
  \<open>min(remaining, 25)\<close> more elements. Each element contributes its own row, labelled
  with its index, followed by the rows of its descendants, and an element that is
  neither an array nor an object contributes that row only. For 60 elements: indices 0
  to 24 and the button \<open>Show 25 More\<close> at page 0, indices 0 to 49 and the button
  \<open>Show Remaining\<close> for 50 to 59 after one click, all 60 elements and no button after two.
\<close>

theorem array_pagination:
  "expanded (st paths) \<or> hasBeenExpanded (st paths) \<Longrightarrow>
     render st (JArr xs) paths label hide =
       ownRow st (JArr xs) paths label hide @
       elementRows st xs paths hide (min (length xs) (25 * (page (st paths) + 1))) @
       (if 25 * (page (st paths) + 1) < length xs then
          [TrNext (length paths)
             (show_nat (25 * (page (st paths) + 1)) @ [ellipsis] @ show_nat (length xs - 1))
             (HandleNextPage paths)
             (if 25 \<le> length xs - 25 * (page (st paths) + 1)
              then ascii ''Show 25 More'' else ascii ''Show Remaining'')]
        else [])
     \<and> ownRow st (JArr xs) paths label hide =
         (if label \<noteq> None then
            [Tr (concat paths) hide (isCollapsable (JArr xs)) (\<not> expanded (st paths))
                (int (length paths) - 1)
                (if isCollapsable (JArr xs) then Some (HandleClickKey paths) else None)
                label (getValue (JArr xs) (\<not> expanded (st paths)))]
          else [])
     \<and> (\<forall>key. \<exists>rest.
           render st (xs ! key) (paths @ [ascii ''['' @ show_nat key @ ascii '']''])
             (Some (LNum key)) (hide \<or> \<not> expanded (st paths))
           = elementRow st xs paths hide key # rest)
     \<and> (\<forall>n. n \<le> length (elementRows st xs paths hide n))
     \<and> ((\<forall>x \<in> set xs. getType x \<noteq> TArray \<and> getType x \<noteq> TObject) \<longrightarrow>
          (\<forall>n \<le> length xs.
             elementRows st xs paths hide n = map (elementRow st xs paths hide) [0..<n]))
     \<and> min (length xs) (25 * (page (dispatch st (HandleNextPage paths) paths) + 1)) =
         min (length xs) (25 * (page (st paths) + 1)) + min (length xs - 25 * (page (st paths) + 1)) 25
     \<and> (length xs = 60 \<and> page (st paths) = 0 \<longrightarrow>
          render st (JArr xs) paths label hide =
            ownRow st (JArr xs) paths label hide @
            elementRows st xs paths hide 25 @
            [TrNext (length paths) (ascii ''25'' @ [ellipsis] @ ascii ''59'')
               (HandleNextPage paths) (ascii ''Show 25 More'')]
          \<and> (let st1 = dispatch st (HandleNextPage paths) in
               page (st1 paths) = 1 \<and>
               render st1 (JArr xs) paths label hide =
                 ownRow st1 (JArr xs) paths label hide @
                 elementRows st1 xs paths hide 50 @
                 [TrNext (length paths) (ascii ''50'' @ [ellipsis] @ ascii ''59'')
                    (HandleNextPage paths) (ascii ''Show Remaining'')])
          \<and> (let st2 = dispatch (dispatch st (HandleNextPage paths)) (HandleNextPage paths) in
               page (st2 paths) = 2 \<and>
               render st2 (JArr xs) paths label hide =
                 ownRow st2 (JArr xs) paths label hide @
                 elementRows st2 xs paths hide 60))"
proof (intro conjI impI)
  assume shown: "expanded (st paths) \<or> hasBeenExpanded (st paths)"
  let ?st1 = "dispatch st (HandleNextPage paths)"
  let ?st2 = "dispatch ?st1 (HandleNextPage paths)"
  have shown1: "expanded (?st1 paths) \<or> hasBeenExpanded (?st1 paths)"
    using shown by (simp add: handleNextPage_def)
  have shown2: "expanded (?st2 paths) \<or> hasBeenExpanded (?st2 paths)"
    using shown by (simp add: handleNextPage_def)
  show "render st (JArr xs) paths label hide =
       ownRow st (JArr xs) paths label hide @
       elementRows st xs paths hide (min (length xs) (25 * (page (st paths) + 1))) @
       (if 25 * (page (st paths) + 1) < length xs then
          [TrNext (length paths)
             (show_nat (25 * (page (st paths) + 1)) @ [ellipsis] @ show_nat (length xs - 1))
             (HandleNextPage paths)
             (if 25 \<le> length xs - 25 * (page (st paths) + 1)
              then ascii ''Show 25 More'' else ascii ''Show Remaining'')]
        else [])"
    using shown by (rule render_JArr_shown)
  show "ownRow st (JArr xs) paths label hide =
         (if label \<noteq> None then
            [Tr (concat paths) hide (isCollapsable (JArr xs)) (\<not> expanded (st paths))
                (int (length paths) - 1)
                (if isCollapsable (JArr xs) then Some (HandleClickKey paths) else None)
                label (getValue (JArr xs) (\<not> expanded (st paths)))]
          else [])"
    by (rule ownRow_Tr)
  show "\<forall>key. \<exists>rest.
           render st (xs ! key) (paths @ [ascii ''['' @ show_nat key @ ascii '']''])
             (Some (LNum key)) (hide \<or> \<not> expanded (st paths))
           = elementRow st xs paths hide key # rest"
    by (intro allI element_head)
  show "\<forall>n. n \<le> length (elementRows st xs paths hide n)"
    by (intro allI length_elementRows_ge)
  show "\<forall>n \<le> length xs.
             elementRows st xs paths hide n = map (elementRow st xs paths hide) [0..<n]"
    if "\<forall>x \<in> set xs. getType x \<noteq> TArray \<and> getType x \<noteq> TObject"
    using that by (intro allI impI elementRows_scalar_rows)
  show "min (length xs) (25 * (page (dispatch st (HandleNextPage paths) paths) + 1)) =
         min (length xs) (25 * (page (st paths) + 1)) + min (length xs - 25 * (page (st paths) + 1)) 25"
    by (simp add: handleNextPage_def min_def; arith)
  assume sixty: "length xs = 60 \<and> page (st paths) = 0"
  then have p1: "page (?st1 paths) = 1" and p2: "page (?st2 paths) = 2"
    by (simp_all add: handleNextPage_def)
  show "render st (JArr xs) paths label hide =
            ownRow st (JArr xs) paths label hide @
            elementRows st xs paths hide 25 @
            [TrNext (length paths) (ascii ''25'' @ [ellipsis] @ ascii ''59'')
               (HandleNextPage paths) (ascii ''Show 25 More'')]"
    using sixty by (simp add: render_JArr_shown [of st paths, OF shown] show_nat_25 show_nat_59)
  show "let st1 = dispatch st (HandleNextPage paths) in
               page (st1 paths) = 1 \<and>
               render st1 (JArr xs) paths label hide =
                 ownRow st1 (JArr xs) paths label hide @
                 elementRows st1 xs paths hide 50 @
                 [TrNext (length paths) (ascii ''50'' @ [ellipsis] @ ascii ''59'')
                    (HandleNextPage paths) (ascii ''Show Remaining'')]"
    unfolding Let_def
    using sixty p1 by (simp add: render_JArr_shown [of "dispatch st (HandleNextPage paths)" paths, OF shown1] show_nat_50 show_nat_59
        del: dispatch.simps)
  show "let st2 = dispatch (dispatch st (HandleNextPage paths)) (HandleNextPage paths) in
               page (st2 paths) = 2 \<and>
               render st2 (JArr xs) paths label hide =
                 ownRow st2 (JArr xs) paths label hide @
                 elementRows st2 xs paths hide 60"
    unfolding Let_def
    using sixty p2 by (simp add: render_JArr_shown [of "dispatch (dispatch st (HandleNextPage paths)) (HandleNextPage paths)" paths, OF shown2] del: dispatch.simps)
qed

text \<open>
  The array of sixty nulls at the root: 25 rows labelled 0 to 24 and the button at the
  start, 50 rows and the button after one click on it, 60 rows after two.
\<close>

theorem array_pagination_witness:
  "(expanded (initial_store []) \<or> hasBeenExpanded (initial_store []))
   \<and> render initial_store (JArr (replicate 60 JNull)) [] None False =
       map (\<lambda>key. Tr (ascii ''['' @ show_nat key @ ascii '']'') False False True 0 None
                    (Some (LNum key)) (Some (TdValue TNull (ascii ''null''))))
           [0..<25] @
       [TrNext 0 (ascii ''25'' @ [ellipsis] @ ascii ''59'') (HandleNextPage []) (ascii ''Show 25 More'')]
   \<and> length (render initial_store (JArr (replicate 60 JNull)) [] None False) = 26
   \<and> render (dispatch initial_store (HandleNextPage [])) (JArr (replicate 60 JNull)) [] None False =
       map (\<lambda>key. Tr (ascii ''['' @ show_nat key @ ascii '']'') False False True 0 None
                    (Some (LNum key)) (Some (TdValue TNull (ascii ''null''))))
           [0..<50] @
       [TrNext 0 (ascii ''50'' @ [ellipsis] @ ascii ''59'') (HandleNextPage []) (ascii ''Show Remaining'')]
   \<and> render (dispatch (dispatch initial_store (HandleNextPage [])) (HandleNextPage []))
        (JArr (replicate 60 JNull)) [] None False =
       map (\<lambda>key. Tr (ascii ''['' @ show_nat key @ ascii '']'') False False True 0 None
                    (Some (LNum key)) (Some (TdValue TNull (ascii ''null''))))
           [0..<60]"
proof -
  let ?xs = "replicate 60 JNull"
  let ?st1 = "dispatch initial_store (HandleNextPage [])"
  let ?st2 = "dispatch ?st1 (HandleNextPage [])"
  let ?row = "\<lambda>key. Tr (ascii ''['' @ show_nat key @ ascii '']'') False False True 0 None
                    (Some (LNum key)) (Some (TdValue TNull (ascii ''null'')))"
  have shown: "expanded (initial_store []) \<or> hasBeenExpanded (initial_store [])"
    by (simp add: initial_store_def constructor_def)
  have sixty: "length ?xs = 60 \<and> page (initial_store []) = 0"
    by (simp add: initial_store_def constructor_def)
  have nulls: "\<forall>x \<in> set ?xs. getType x \<noteq> TArray \<and> getType x \<noteq> TObject"
    by simp
  note t = array_pagination [of initial_store "[]" ?xs None False, OF shown]
  note t1 = array_pagination [of ?st1 "[]" ?xs None False]
  note t2 = array_pagination [of ?st2 "[]" ?xs None False]
  have root1: "expanded (?st1 []) \<or> hasBeenExpanded (?st1 [])"
    and root2: "expanded (?st2 []) \<or> hasBeenExpanded (?st2 [])"
    by (simp_all add: initial_store_def constructor_def handleNextPage_def)
  have row: "elementRow st ?xs [] False key = ?row key"
    if "key < 60" "expanded (st [])"
       "st [ascii ''['' @ show_nat key @ ascii '']''] = constructor [ascii ''['' @ show_nat key @ ascii '']'']"
    for st :: store and key
    using that
    by (simp add: elementRow_def constructor_def isCollapsable_def getValue_scalar_def
          MAX_VALUE_LENGTH_def ascii_def)
  have rows: "map (elementRow st ?xs [] False) [0..<n] = map ?row [0..<n]"
    if "n \<le> 60" "expanded (st [])"
       "\<And>key. st [ascii ''['' @ show_nat key @ ascii '']''] = constructor [ascii ''['' @ show_nat key @ ascii '']'']"
    for st :: store and n
    using that by (intro map_cong refl row) simp_all
  have e0: "elementRows initial_store ?xs [] False 25 = map ?row [0..<25]"
  proof -
    from t nulls have "elementRows initial_store ?xs [] False 25
        = map (elementRow initial_store ?xs [] False) [0..<25]"
      by simp
    also have "\<dots> = map ?row [0..<25]"
      by (rule rows) (simp_all add: initial_store_def constructor_def)
    finally show ?thesis .
  qed
  have e1: "elementRows ?st1 ?xs [] False 50 = map ?row [0..<50]"
  proof -
    from t1 [OF root1] nulls have "elementRows ?st1 ?xs [] False 50
        = map (elementRow ?st1 ?xs [] False) [0..<50]"
      by simp
    also have "\<dots> = map ?row [0..<50]"
      by (rule rows) (simp_all add: initial_store_def constructor_def handleNextPage_def)
    finally show ?thesis .
  qed
  have e2: "elementRows ?st2 ?xs [] False 60 = map ?row [0..<60]"
  proof -
    from t2 [OF root2] nulls have "elementRows ?st2 ?xs [] False 60
        = map (elementRow ?st2 ?xs [] False) [0..<60]"
      by simp
    also have "\<dots> = map ?row [0..<60]"
      by (rule rows) (simp_all add: initial_store_def constructor_def handleNextPage_def)
    finally show ?thesis .
  qed
  have own: "ownRow st (JArr ?xs) [] None False = []" for st :: store
    by (simp add: ownRow_def)
  note six = t [THEN conjunct2, THEN conjunct2, THEN conjunct2, THEN conjunct2, THEN conjunct2,
      THEN conjunct2, rule_format, OF sixty]
  from six have r0: "render initial_store (JArr ?xs) [] None False =
       map ?row [0..<25] @
       [TrNext 0 (ascii ''25'' @ [ellipsis] @ ascii ''59'') (HandleNextPage []) (ascii ''Show 25 More'')]"
    by (simp add: own e0 Let_def del: dispatch.simps)
  from six have r1: "render ?st1 (JArr ?xs) [] None False =
       map ?row [0..<50] @
       [TrNext 0 (ascii ''50'' @ [ellipsis] @ ascii ''59'') (HandleNextPage []) (ascii ''Show Remaining'')]"
    by (simp add: own e1 Let_def del: dispatch.simps)
  from six have r2: "render ?st2 (JArr ?xs) [] None False = map ?row [0..<60]"
    by (simp add: own e2 Let_def del: dispatch.simps)
  have len: "length (render initial_store (JArr ?xs) [] None False) = 26"
    unfolding r0 by simp
  from shown r0 len r1 r2 show ?thesis by blast
qed

section \<open>Objects\<close>

text \<open>Some keys.\<close>

lemma isArrayIndex_1: "isArrayIndex (ascii ''1'')"
  by (simp add: isArrayIndex_def ascii_def isDigit_def ToNumber_def show_nat.simps [of "Suc 0"])

lemma isArrayIndex_b: "\<not> isArrayIndex (ascii ''b'')"
  by (simp add: isArrayIndex_def ascii_def isDigit_def)

lemma isArrayIndex_a: "\<not> isArrayIndex (ascii ''a'')"
  by (simp add: isArrayIndex_def ascii_def isDigit_def)

lemma render_JObj_shown:
  assumes "expanded (st paths) \<or> hasBeenExpanded (st paths)"
  shows "render st (JObj props) paths label hide =
     ownRow st (JObj props) paths label hide @
     propertyRows st props paths hide (Object_keys props)"
  using assms by (simp add: render_JObj_eq)

text \<open>The order of \<open>Object.keys\<close>.\<close>

lemma Object_keys_index_part:
  "filter isArrayIndex (Object_keys props) = sort_key ToNumber (filter isArrayIndex (map fst props))"
proof -
  have "filter isArrayIndex (sort_key ToNumber (filter isArrayIndex (map fst props)))
      = sort_key ToNumber (filter isArrayIndex (map fst props))"
    by (rule filter_True) simp
  then show ?thesis by (simp add: Object_keys_def Let_def)
qed

lemma Object_keys_other_part:
  "filter (\<lambda>k. \<not> isArrayIndex k) (Object_keys props)
     = filter (\<lambda>k. \<not> isArrayIndex k) (map fst props)"
proof -
  have "filter (\<lambda>k. \<not> isArrayIndex k) (sort_key ToNumber (filter isArrayIndex (map fst props))) = []"
    by (simp add: filter_empty_conv)
  then show ?thesis by (simp add: Object_keys_def Let_def)
qed

lemma Object_keys_split:
  "Object_keys props =
     filter isArrayIndex (Object_keys props) @ filter (\<lambda>k. \<not> isArrayIndex k) (Object_keys props)"
  unfolding Object_keys_index_part Object_keys_other_part
  by (simp add: Object_keys_def Let_def)

lemma Object_keys_sorted:
  "sorted (map ToNumber (filter isArrayIndex (Object_keys props)))"
  unfolding Object_keys_index_part by (rule sorted_sort_key)

text \<open>
  The store below a node: \<open>render\<close> of a child looks at the store at the paths that
  extend the child's own.
\<close>

lemma render_store_cong:
  "(\<And>q. st (paths @ q) = st' (paths @ q)) \<Longrightarrow>
     render st v paths label hide = render st' v paths label hide"
proof (induction st v paths label hide rule: render_induct)
  case (Arr st xs paths label hide)
  have here: "st paths = st' paths" using Arr.prems [of "[]"] by simp
  have "render st (xs ! k) (paths @ [ascii ''['' @ show_nat k @ ascii '']'']) (Some (LNum k)) h
      = render st' (xs ! k) (paths @ [ascii ''['' @ show_nat k @ ascii '']'']) (Some (LNum k)) h"
    if "k < length xs" "expanded (st paths) \<or> hasBeenExpanded (st paths)"
       "h = (hide \<or> \<not> expanded (st paths))" for k h
    using that Arr.prems by (auto intro!: Arr.IH)
  then have "expanded (st paths) \<or> hasBeenExpanded (st paths) \<Longrightarrow>
      elementRows st xs paths hide (min (length xs) n) = elementRows st' xs paths hide (min (length xs) n)" for n
    unfolding elementRows_def here [symmetric]
    by (intro arg_cong [where f = concat] map_cong) auto
  then show ?case
    by (simp add: render_JArr_eq ownRow_def here)
next
  case (Obj st props paths label hide)
  have here: "st paths = st' paths" using Obj.prems [of "[]"] by simp
  have "render st (prop_get props key) (paths @ [ascii ''.'' @ key]) (Some (LStr key)) h
      = render st' (prop_get props key) (paths @ [ascii ''.'' @ key]) (Some (LStr key)) h"
    if "key \<in> set (Object_keys props)" "expanded (st paths) \<or> hasBeenExpanded (st paths)"
       "h = (hide \<or> \<not> expanded (st paths))" for key h
    using that Obj.prems by (auto intro!: Obj.IH)
  then have "expanded (st paths) \<or> hasBeenExpanded (st paths) \<Longrightarrow>
      propertyRows st props paths hide (Object_keys props)
        = propertyRows st' props paths hide (Object_keys props)"
    unfolding propertyRows_def here [symmetric]
    by (intro arg_cong [where f = concat] map_cong) auto
  then show ?case
    by (simp add: render_JObj_eq ownRow_def here)
next
  case (Scalar st v paths label hide)
  have here: "st paths = st' paths" using Scalar.prems [of "[]"] by simp
  show ?case using Scalar.hyps by (simp add: render_scalar_eq here)
qed

lemma nodeRow_page: "nodeRow v (s\<lparr>page := n\<rparr>) paths label hide = nodeRow v s paths label hide"
  by (simp add: nodeRow_def)

lemma render_JObj_page:
  "render (st(paths := (st paths)\<lparr>page := n\<rparr>)) (JObj props) paths label hide
     = render st (JObj props) paths label hide"
proof -
  let ?st' = "st(paths := (st paths)\<lparr>page := n\<rparr>)"
  have "propertyRows ?st' props paths hide keys = propertyRows st props paths hide keys" for keys
  proof -
    have "render ?st' (prop_get props key) (paths @ [ascii ''.'' @ key]) l h
      = render st (prop_get props key) (paths @ [ascii ''.'' @ key]) l h" for key l h
      by (rule render_store_cong) simp
    then show ?thesis by (simp add: propertyRows_def)
  qed
  then show ?thesis
    by (simp add: render_JObj_eq ownRow_def nodeRow_page)
qed

lemma render_no_array_no_pagination:
  assumes "\<forall>w \<in> set (nodes v). getType w \<noteq> TArray"
  shows "\<not> list_ex isPagination (render st v paths label hide)"
proof
  assume "list_ex isPagination (render st v paths label hide)"
  then obtain r where mem: "r \<in> set (render st v paths label hide)" and "isPagination r"
    by (auto simp: list_ex_iff)
  with render_rows [OF mem] obtain xs where "JArr xs \<in> set (nodes v)"
    by (auto simp: nodeRow_def Let_def)
  with assms show False by fastforce
qed

text \<open>
  C10: when the children of an object are rendered, its rows are its own row (if it has a
  label) followed by the rows of all of its properties, one group for each key and
  nothing else: each key contributes its own row, labelled with the key and showing the
  value of that property, followed by the rows of its descendants, and a property that
  is neither an array nor an object contributes that row only. The \<open>page\<close> of the object
  plays no part, and a row with the next-page button can only come from an array with
  more than 25 elements among its nodes.
\<close>

theorem object_not_paginated:
  "expanded (st paths) \<or> hasBeenExpanded (st paths) \<Longrightarrow>
     render st (JObj props) paths label hide =
       ownRow st (JObj props) paths label hide @
       propertyRows st props paths hide (Object_keys props)
     \<and> mset (Object_keys props) = mset (map fst props)
     \<and> length (Object_keys props) = length props
     \<and> render (st(paths := (st paths)\<lparr>page := n\<rparr>)) (JObj props) paths label hide
         = render st (JObj props) paths label hide
     \<and> \<not> list_ex isPagination (ownRow st (JObj props) paths label hide)
     \<and> (r \<in> set (render st (JObj props) paths label hide) \<and> isPagination r \<longrightarrow>
          (\<exists>xs. JArr xs \<in> set (nodes (JObj props)) \<and> 25 < length xs))
     \<and> ownRow st (JObj props) paths label hide =
         (if label \<noteq> None then
            [Tr (concat paths) hide (isCollapsable (JObj props)) (\<not> expanded (st paths))
                (int (length paths) - 1)
                (if isCollapsable (JObj props) then Some (HandleClickKey paths) else None)
                label (getValue (JObj props) (\<not> expanded (st paths)))]
          else [])
     \<and> (\<forall>key. \<exists>rest.
           render st (prop_get props key) (paths @ [ascii ''.'' @ key])
             (Some (LStr key)) (hide \<or> \<not> expanded (st paths))
           = propertyRow st props paths hide key # rest)
     \<and> length props \<le> length (propertyRows st props paths hide (Object_keys props))
     \<and> (distinct (map fst props) \<longrightarrow> (\<forall>p \<in> set props. prop_get props (fst p) = snd p))
     \<and> ((\<forall>p \<in> set props. getType (snd p) \<noteq> TArray \<and> getType (snd p) \<noteq> TObject) \<longrightarrow>
          propertyRows st props paths hide (Object_keys props)
            = map (propertyRow st props paths hide) (Object_keys props))"
proof (intro conjI impI)
  assume shown: "expanded (st paths) \<or> hasBeenExpanded (st paths)"
  then show "render st (JObj props) paths label hide =
       ownRow st (JObj props) paths label hide @
       propertyRows st props paths hide (Object_keys props)"
    by (rule render_JObj_shown)
  show "mset (Object_keys props) = mset (map fst props)"
    by (rule mset_Object_keys)
  show "length (Object_keys props) = length props"
    by (rule length_Object_keys)
  show "render (st(paths := (st paths)\<lparr>page := n\<rparr>)) (JObj props) paths label hide
         = render st (JObj props) paths label hide"
    by (rule render_JObj_page)
  show "\<not> list_ex isPagination (ownRow st (JObj props) paths label hide)"
    by (simp add: ownRow_def nodeRow_def Let_def)
  show "\<exists>xs. JArr xs \<in> set (nodes (JObj props)) \<and> 25 < length xs"
    if "r \<in> set (render st (JObj props) paths label hide) \<and> isPagination r"
  proof -
    from that have mem: "r \<in> set (render st (JObj props) paths label hide)"
      and pag: "isPagination r" by simp_all
    from render_rows [OF mem] pag show ?thesis
      by (auto simp: nodeRow_def Let_def PAGE_SIZE_def)
  qed
  show "ownRow st (JObj props) paths label hide =
         (if label \<noteq> None then
            [Tr (concat paths) hide (isCollapsable (JObj props)) (\<not> expanded (st paths))
                (int (length paths) - 1)
                (if isCollapsable (JObj props) then Some (HandleClickKey paths) else None)
                label (getValue (JObj props) (\<not> expanded (st paths)))]
          else [])"
    by (rule ownRow_Tr)
  show "\<forall>key. \<exists>rest.
           render st (prop_get props key) (paths @ [ascii ''.'' @ key])
             (Some (LStr key)) (hide \<or> \<not> expanded (st paths))
           = propertyRow st props paths hide key # rest"
    by (intro allI property_head)
  show "length props \<le> length (propertyRows st props paths hide (Object_keys props))"
    using length_propertyRows_ge [of "Object_keys props" st props paths hide]
    by (simp add: length_Object_keys)
  show "\<forall>p \<in> set props. prop_get props (fst p) = snd p" if "distinct (map fst props)"
    using that by (intro ballI prop_get_own)
  show "propertyRows st props paths hide (Object_keys props)
            = map (propertyRow st props paths hide) (Object_keys props)"
    if "\<forall>p \<in> set props. getType (snd p) \<noteq> TArray \<and> getType (snd p) \<noteq> TObject"
    using that by (rule propertyRows_scalar_rows)
qed

text \<open>
  An object with 30 keys at the root is rendered as 30 rows, one for each key; and an
  object with an expanded array of 60 elements shows the next-page row of that array.
\<close>

theorem object_not_paginated_witness:
  "(expanded (initial_store []) \<or> hasBeenExpanded (initial_store []))
   \<and> length (Object_keys (map (\<lambda>i. (ascii ''k'' @ show_nat i, JNull)) [0..<30])) = 30
   \<and> \<not> list_ex isPagination
        (render initial_store (JObj (map (\<lambda>i. (ascii ''k'' @ show_nat i, JNull)) [0..<30])) [] None False)
   \<and> TrNext 1 (ascii ''25'' @ [ellipsis] @ ascii ''59'') (HandleNextPage [ascii ''.a''])
        (ascii ''Show 25 More'')
       \<in> set (render (dispatch initial_store (HandleClickKey [ascii ''.a'']))
                 (JObj [(ascii ''a'', JArr (replicate 60 JNull))]) [] None False)
   \<and> (\<exists>xs. JArr xs \<in> set (nodes (JObj [(ascii ''a'', JArr (replicate 60 JNull))])) \<and> 25 < length xs)
   \<and> render initial_store (JObj (map (\<lambda>i. (ascii ''k'' @ show_nat i, JNull)) [0..<30])) [] None False
       = map (\<lambda>i. Tr (ascii ''.'' @ ascii ''k'' @ show_nat i) False False True 0 None
                     (Some (LStr (ascii ''k'' @ show_nat i)))
                     (Some (TdValue TNull (ascii ''null''))))
             [0..<30]
   \<and> length (render initial_store (JObj (map (\<lambda>i. (ascii ''k'' @ show_nat i, JNull)) [0..<30]))
               [] None False) = 30
   \<and> prop_get [(ascii ''a'', JArr (replicate 60 JNull))] (ascii ''a'') = JArr (replicate 60 JNull)"
proof -
  let ?props = "map (\<lambda>i. (ascii ''k'' @ show_nat i, JNull)) [0..<30]"
  let ?st = "dispatch initial_store (HandleClickKey [ascii ''.a''])"
  let ?doc = "JObj [(ascii ''a'', JArr (replicate 60 JNull))]"
  let ?next = "TrNext 1 (ascii ''25'' @ [ellipsis] @ ascii ''59'') (HandleNextPage [ascii ''.a''])
        (ascii ''Show 25 More'')"
  let ?row = "\<lambda>key. Tr (ascii ''.'' @ key) False False True 0 None (Some (LStr key))
                     (Some (TdValue TNull (ascii ''null'')))"
  have shown: "expanded (initial_store []) \<or> hasBeenExpanded (initial_store [])"
    by (simp add: initial_store_def constructor_def)
  have shown': "expanded (?st []) \<or> hasBeenExpanded (?st [])"
    by (simp add: initial_store_def constructor_def)
  note t = object_not_paginated [of initial_store "[]" ?props None False, OF shown]
  note t' = object_not_paginated [of ?st "[]" "[(ascii ''a'', JArr (replicate 60 JNull))]" None False,
      OF shown', of 0 ?next]
  note t_rows = t [of 0 ?next, THEN conjunct1]
  note t_len = t [of 0 ?next, THEN conjunct2, THEN conjunct2, THEN conjunct1]
  note t_pag = t [THEN conjunct2, THEN conjunct2, THEN conjunct2, THEN conjunct2, THEN conjunct2,
      THEN conjunct1, rule_format]
  note t_scalar = t [of 0 ?next, THEN conjunct2, THEN conjunct2, THEN conjunct2, THEN conjunct2,
      THEN conjunct2, THEN conjunct2, THEN conjunct2, THEN conjunct2, THEN conjunct2,
      THEN conjunct2, rule_format]
  note t'_pag = t' [THEN conjunct2, THEN conjunct2, THEN conjunct2, THEN conjunct2, THEN conjunct2,
      THEN conjunct1, rule_format]
  note t'_own = t' [THEN conjunct2, THEN conjunct2, THEN conjunct2, THEN conjunct2,
      THEN conjunct2, THEN conjunct2, THEN conjunct2, THEN conjunct2, THEN conjunct2,
      THEN conjunct1, rule_format]
  have no_array: "JArr xs \<notin> set (nodes (JObj ?props))" for xs
    by auto
  have "\<not> isPagination r" if "r \<in> set (render initial_store (JObj ?props) [] None False)" for r
    using t_pag [of r] that no_array by blast
  then have 1: "\<not> list_ex isPagination (render initial_store (JObj ?props) [] None False)"
    by (auto simp: list_ex_iff)
  have 2: "length (Object_keys ?props) = 30"
    using t_len by simp
  have a: "?st [ascii ''.a''] = \<lparr>expanded = True, hasBeenExpanded = True, page = 0\<rparr>"
    by (simp add: initial_store_def constructor_def handleClickKey_def)
  have "expanded (?st [ascii ''.a'']) \<or> hasBeenExpanded (?st [ascii ''.a''])"
    by (simp only: a) simp
  from render_JArr_shown [of ?st "[ascii ''.a'']" "replicate 60 JNull" "Some (LStr (ascii ''a''))" False,
      OF this]
  have "?next \<in> set (render ?st (JArr (replicate 60 JNull)) [ascii ''.a''] (Some (LStr (ascii ''a''))) False)"
    by (simp add: a show_nat_25 show_nat_59 del: dispatch.simps)
  moreover have "render ?st ?doc [] None False
      = render ?st (JArr (replicate 60 JNull)) [ascii ''.a''] (Some (LStr (ascii ''a''))) False"
  proof -
    have root: "expanded (?st [])"
      by (simp add: initial_store_def constructor_def)
    have pa: "ascii ''.'' @ ascii ''a'' = ascii ''.a''"
      by (simp add: ascii_def)
    show ?thesis
      by (simp add: render_JObj_eq ownRow_def propertyRows_def Object_keys_def isArrayIndex_a
            prop_get_def root pa del: dispatch.simps)
  qed
  ultimately have 3: "?next \<in> set (render ?st ?doc [] None False)"
    by simp
  have 4: "\<exists>xs. JArr xs \<in> set (nodes ?doc) \<and> 25 < length xs"
    using t'_pag 3 by simp
  have nulls: "\<forall>p \<in> set ?props. getType (snd p) \<noteq> TArray \<and> getType (snd p) \<noteq> TObject"
    by simp
  have keys: "Object_keys ?props = map fst ?props"
    by (rule Object_keys_no_index) (simp add: isArrayIndex_def ascii_def isDigit_def)
  have val: "prop_get ?props key = JNull" if "key \<in> set (map fst ?props)" for key
  proof -
    from that have "key \<in> set (Object_keys ?props)" by (simp only: keys)
    then have "prop_get ?props key \<in> snd ` set ?props" by (rule prop_get_in_nodes)
    then show ?thesis by auto
  qed
  have row: "propertyRow initial_store ?props [] False key = ?row key"
    if "key \<in> set (map fst ?props)" for key
    using val [OF that]
    by (simp add: propertyRow_def initial_store_def constructor_def isCollapsable_def
          getValue_scalar_def MAX_VALUE_LENGTH_def Let_def ascii_def)
  have "render initial_store (JObj ?props) [] None False
      = propertyRows initial_store ?props [] False (Object_keys ?props)"
    using t_rows by (simp add: ownRow_def)
  also have "\<dots> = map (propertyRow initial_store ?props [] False) (Object_keys ?props)"
    using t_scalar nulls by blast
  also have "\<dots> = map ?row (map fst ?props)"
    unfolding keys by (intro map_cong refl row)
  also have "\<dots> = map (\<lambda>i. Tr (ascii ''.'' @ ascii ''k'' @ show_nat i) False False True 0 None
                     (Some (LStr (ascii ''k'' @ show_nat i)))
                     (Some (TdValue TNull (ascii ''null'')))) [0..<30]"
    by (simp add: comp_def)
  finally have 5: "render initial_store (JObj ?props) [] None False
       = map (\<lambda>i. Tr (ascii ''.'' @ ascii ''k'' @ show_nat i) False False True 0 None
                     (Some (LStr (ascii ''k'' @ show_nat i)))
                     (Some (TdValue TNull (ascii ''null'')))) [0..<30]" .
  have 6: "length (render initial_store (JObj ?props) [] None False) = 30"
    unfolding 5 by simp
  have "distinct (map fst [(ascii ''a'', JArr (replicate 60 JNull))])" by simp
  from t'_own [OF this, of "(ascii ''a'', JArr (replicate 60 JNull))"]
  have 7: "prop_get [(ascii ''a'', JArr (replicate 60 JNull))] (ascii ''a'') = JArr (replicate 60 JNull)"
    by simp
  from shown 1 2 3 4 5 6 7 show ?thesis by blast
qed

section \<open>The order of the keys\<close>

text \<open>
  C4, as stated, fails: an object created with the key \<open>b\<close> before the key \<open>1\<close> is
  rendered with the row of \<open>1\<close> before the row of \<open>b\<close>.
\<close>

theorem object_key_order_counterexample:
  "map rowLabel (render initial_store (JObj [(ascii ''b'', JNull), (ascii ''1'', JNull)]) [] None False)
     = [Some (LStr (ascii ''1'')), Some (LStr (ascii ''b''))]
   \<and> map rowLabel (render initial_store (JObj [(ascii ''b'', JNull), (ascii ''1'', JNull)]) [] None False)
     \<noteq> map (\<lambda>p. Some (LStr (fst p))) [(ascii ''b'', JNull), (ascii ''1'', JNull)]"
proof -
  have keys: "Object_keys [(ascii ''b'', JNull), (ascii ''1'', JNull)] = [ascii ''1'', ascii ''b'']"
    by (simp add: Object_keys_def isArrayIndex_1 isArrayIndex_b)
  have neq: "ascii ''1'' \<noteq> ascii ''b''"
    by (simp add: ascii_def)
  have "map rowLabel (render initial_store (JObj [(ascii ''b'', JNull), (ascii ''1'', JNull)]) [] None False)
     = [Some (LStr (ascii ''1'')), Some (LStr (ascii ''b''))]"
    using neq
    by (simp add: render_JObj_eq ownRow_def propertyRows_def keys prop_get_def nodeRow_def
          Let_def initial_store_def constructor_def)
  then show ?thesis using neq by simp
qed

lemma isArrayIndex_0: "isArrayIndex (ascii ''0'')"
  by (simp add: isArrayIndex_def ascii_def isDigit_def ToNumber_def show_nat.simps [of 0])

text \<open>
  C4, amended: when the children of an object are rendered, the rows of its properties
  follow the order of \<open>Object.keys\<close>, each key contributing its own row, labelled with
  the key: first the keys that are array indices, all of them, in ascending numeric
  order, then all other keys in the order of their creation. An object none of whose
  keys is an array index is rendered in the order of creation.
\<close>

theorem object_key_order:
  "expanded (st paths) \<or> hasBeenExpanded (st paths) \<Longrightarrow>
     render st (JObj props) paths label hide =
       ownRow st (JObj props) paths label hide @
       propertyRows st props paths hide (Object_keys props)
     \<and> Object_keys props =
         filter isArrayIndex (Object_keys props) @ filter (\<lambda>k. \<not> isArrayIndex k) (Object_keys props)
     \<and> sorted (map ToNumber (filter isArrayIndex (Object_keys props)))
     \<and> filter (\<lambda>k. \<not> isArrayIndex k) (Object_keys props)
         = filter (\<lambda>k. \<not> isArrayIndex k) (map fst props)
     \<and> ((\<forall>k \<in> set (map fst props). \<not> isArrayIndex k) \<longrightarrow> Object_keys props = map fst props)
     \<and> filter isArrayIndex (Object_keys props)
         = sort_key ToNumber (filter isArrayIndex (map fst props))
     \<and> mset (filter isArrayIndex (Object_keys props)) = mset (filter isArrayIndex (map fst props))
     \<and> mset (Object_keys props) = mset (map fst props)
     \<and> (\<forall>key. \<exists>rest.
           render st (prop_get props key) (paths @ [ascii ''.'' @ key])
             (Some (LStr key)) (hide \<or> \<not> expanded (st paths))
           = propertyRow st props paths hide key # rest)
     \<and> ((\<forall>p \<in> set props. getType (snd p) \<noteq> TArray \<and> getType (snd p) \<noteq> TObject) \<longrightarrow>
          render st (JObj props) paths None hide
            = map (propertyRow st props paths hide) (Object_keys props))"
proof (intro conjI impI)
  assume shown: "expanded (st paths) \<or> hasBeenExpanded (st paths)"
  then show "render st (JObj props) paths label hide =
       ownRow st (JObj props) paths label hide @
       propertyRows st props paths hide (Object_keys props)"
    by (rule render_JObj_shown)
  show "Object_keys props =
         filter isArrayIndex (Object_keys props) @ filter (\<lambda>k. \<not> isArrayIndex k) (Object_keys props)"
    by (rule Object_keys_split)
  show "sorted (map ToNumber (filter isArrayIndex (Object_keys props)))"
    by (rule Object_keys_sorted)
  show "filter (\<lambda>k. \<not> isArrayIndex k) (Object_keys props)
         = filter (\<lambda>k. \<not> isArrayIndex k) (map fst props)"
    by (rule Object_keys_other_part)
  show "Object_keys props = map fst props" if "\<forall>k \<in> set (map fst props). \<not> isArrayIndex k"
    using that by (rule Object_keys_no_index)
  show "filter isArrayIndex (Object_keys props)
         = sort_key ToNumber (filter isArrayIndex (map fst props))"
    by (rule Object_keys_index_part)
  show "mset (filter isArrayIndex (Object_keys props)) = mset (filter isArrayIndex (map fst props))"
    by (simp only: Object_keys_index_part mset_sort)
  show "mset (Object_keys props) = mset (map fst props)"
    by (rule mset_Object_keys)
  show "\<forall>key. \<exists>rest.
           render st (prop_get props key) (paths @ [ascii ''.'' @ key])
             (Some (LStr key)) (hide \<or> \<not> expanded (st paths))
           = propertyRow st props paths hide key # rest"
    by (intro allI property_head)
  show "render st (JObj props) paths None hide
            = map (propertyRow st props paths hide) (Object_keys props)"
    if "\<forall>p \<in> set props. getType (snd p) \<noteq> TArray \<and> getType (snd p) \<noteq> TObject"
    using shown propertyRows_scalar_rows [OF that, of st paths hide "Object_keys props"]
    by (simp add: render_JObj_eq ownRow_def)
qed

text \<open>
  An object created with the keys \<open>b\<close>, \<open>a\<close> is rendered as the row of \<open>b\<close>, then the row of
  \<open>a\<close>; the keys \<open>b\<close>, \<open>1\<close>, \<open>a\<close>, \<open>0\<close> are listed as \<open>0\<close>, \<open>1\<close>, \<open>b\<close>, \<open>a\<close>.
\<close>

theorem object_key_order_witness:
  "(expanded (initial_store []) \<or> hasBeenExpanded (initial_store []))
   \<and> render initial_store (JObj [(ascii ''b'', JNull), (ascii ''a'', JNull)]) [] None False
       = propertyRows initial_store [(ascii ''b'', JNull), (ascii ''a'', JNull)] [] False
           [ascii ''b'', ascii ''a'']
   \<and> filter (\<lambda>k. \<not> isArrayIndex k) (Object_keys [(ascii ''b'', JNull), (ascii ''1'', JNull), (ascii ''a'', JNull)])
       = [ascii ''b'', ascii ''a'']
   \<and> Object_keys [(ascii ''b'', JNull), (ascii ''1'', JNull), (ascii ''a'', JNull), (ascii ''0'', JNull)]
       = [ascii ''0'', ascii ''1'', ascii ''b'', ascii ''a'']
   \<and> render initial_store (JObj [(ascii ''b'', JNull), (ascii ''a'', JNull)]) [] None False
       = [Tr (ascii ''.b'') False False True 0 None (Some (LStr (ascii ''b'')))
            (Some (TdValue TNull (ascii ''null''))),
          Tr (ascii ''.a'') False False True 0 None (Some (LStr (ascii ''a'')))
            (Some (TdValue TNull (ascii ''null'')))]"
proof -
  let ?ba = "[(ascii ''b'', JNull), (ascii ''a'', JNull)]"
  let ?four = "[(ascii ''b'', JNull), (ascii ''1'', JNull), (ascii ''a'', JNull), (ascii ''0'', JNull)]"
  have shown: "expanded (initial_store []) \<or> hasBeenExpanded (initial_store [])"
    by (simp add: initial_store_def constructor_def)
  have none: "\<forall>k \<in> set (map fst ?ba). \<not> isArrayIndex k"
    by (simp add: isArrayIndex_a isArrayIndex_b)
  have nulls: "\<forall>p \<in> set ?ba. getType (snd p) \<noteq> TArray \<and> getType (snd p) \<noteq> TObject"
    by simp
  note t = object_key_order [of initial_store "[]" _ None False, OF shown]
  note t_ba = t [of ?ba]
  note t_four = t [of ?four]
  note ba_rows = t_ba [THEN conjunct1]
  note ba_keys = t_ba [THEN conjunct2, THEN conjunct2, THEN conjunct2, THEN conjunct2, THEN conjunct1, THEN mp, OF none]
  note ba_scalar = t_ba [THEN conjunct2, THEN conjunct2, THEN conjunct2, THEN conjunct2, THEN conjunct2, THEN conjunct2, THEN conjunct2, THEN conjunct2, THEN conjunct2, THEN mp, OF nulls]
  note four_split = t_four [THEN conjunct2, THEN conjunct1]
  note four_other = t_four [THEN conjunct2, THEN conjunct2, THEN conjunct2, THEN conjunct1]
  note four_index = t_four [THEN conjunct2, THEN conjunct2, THEN conjunct2, THEN conjunct2, THEN conjunct2, THEN conjunct1]
  have keys: "Object_keys ?ba = [ascii ''b'', ascii ''a'']"
    using ba_keys by simp
  have 1: "render initial_store (JObj ?ba) [] None False
       = propertyRows initial_store ?ba [] False [ascii ''b'', ascii ''a'']"
    using ba_rows by (simp add: ownRow_def keys)
  from t [of "[(ascii ''b'', JNull), (ascii ''1'', JNull), (ascii ''a'', JNull)]", THEN conjunct2, THEN conjunct2, THEN conjunct2, THEN conjunct1]
  have 2: "filter (\<lambda>k. \<not> isArrayIndex k) (Object_keys [(ascii ''b'', JNull), (ascii ''1'', JNull), (ascii ''a'', JNull)])
       = [ascii ''b'', ascii ''a'']"
    by (simp add: isArrayIndex_a isArrayIndex_b isArrayIndex_1)
  have sort: "sort_key ToNumber [ascii ''1'', ascii ''0''] = [ascii ''0'', ascii ''1'']"
    by (simp add: ToNumber_def ascii_def)
  from four_index have idx: "filter isArrayIndex (Object_keys ?four) = [ascii ''0'', ascii ''1'']"
    by (simp add: isArrayIndex_a isArrayIndex_b isArrayIndex_1 isArrayIndex_0 sort
          del: sort_key_simps)
  from four_other have oth: "filter (\<lambda>k. \<not> isArrayIndex k) (Object_keys ?four) = [ascii ''b'', ascii ''a'']"
    by (simp add: isArrayIndex_a isArrayIndex_b isArrayIndex_1 isArrayIndex_0)
  from four_split have 3: "Object_keys ?four = [ascii ''0'', ascii ''1'', ascii ''b'', ascii ''a'']"
    by (simp only: idx oth) simp
  from ba_scalar have r: "render initial_store (JObj ?ba) [] None False
      = map (propertyRow initial_store ?ba [] False) [ascii ''b'', ascii ''a'']"
    by (simp only: keys)
  have rowb: "propertyRow initial_store ?ba [] False (ascii ''b'')
      = Tr (ascii ''.b'') False False True 0 None (Some (LStr (ascii ''b'')))
            (Some (TdValue TNull (ascii ''null'')))"
    and rowa: "propertyRow initial_store ?ba [] False (ascii ''a'')
      = Tr (ascii ''.a'') False False True 0 None (Some (LStr (ascii ''a'')))
            (Some (TdValue TNull (ascii ''null'')))"
    by (simp_all add: propertyRow_def prop_get_def initial_store_def constructor_def
          isCollapsable_def getValue_scalar_def MAX_VALUE_LENGTH_def Let_def ascii_def)
  have 4: "render initial_store (JObj ?ba) [] None False
       = [Tr (ascii ''.b'') False False True 0 None (Some (LStr (ascii ''b'')))
            (Some (TdValue TNull (ascii ''null''))),
          Tr (ascii ''.a'') False False True 0 None (Some (LStr (ascii ''a'')))
            (Some (TdValue TNull (ascii ''null'')))]"
    by (simp only: r list.map rowb rowa)
  from shown 1 2 3 4 show ?thesis by blast
qed

section \<open>The first rendering\<close>

lemma initial_store_below: "paths \<noteq> [] \<Longrightarrow> initial_store paths = \<lparr>expanded = False, hasBeenExpanded = False, page = 0\<rparr>"
  by (simp add: initial_store_def constructor_def)

lemma initial_store_root: "initial_store [] = \<lparr>expanded = True, hasBeenExpanded = False, page = 0\<rparr>"
  by (simp add: initial_store_def constructor_def)

lemma render_initial_below:
  assumes "paths \<noteq> []"
  shows "render initial_store v paths (Some l) hide = [nodeRow v (initial_store paths) paths (Some l) hide]"
proof (cases v)
  case (JArr xs)
  then show ?thesis using assms by (simp add: render_JArr_eq ownRow_def initial_store_below)
next
  case (JObj props)
  then show ?thesis using assms by (simp add: render_JObj_eq ownRow_def initial_store_below)
qed (use assms in simp_all)

lemma length_concat_singletons:
  "(\<And>x. x \<in> set xs \<Longrightarrow> length (f x) = 1) \<Longrightarrow> length (concat (map f xs)) = length xs"
  by (induction xs) simp_all

lemma length_elementRows_initial:
  "length (elementRows initial_store xs [] hide n) = n"
  unfolding elementRows_def
  by (subst length_concat_singletons) (simp_all add: render_initial_below)

lemma length_propertyRows_initial:
  "length (propertyRows initial_store props [] hide keys) = length keys"
  unfolding propertyRows_def
  by (subst length_concat_singletons) (simp_all add: render_initial_below)

lemma render_initial_root_visible:
  assumes "r \<in> set (render initial_store v [] None False)"
  shows "\<not> hidden r"
proof (cases v)
  case (JArr xs)
  with assms in_render_JArr [of r initial_store xs "[]" None False]
  show ?thesis
    by (auto simp: render_initial_below initial_store_root nodeRow_def Let_def)
next
  case (JObj props)
  with assms in_render_JObj [of r initial_store props "[]" None False]
  show ?thesis
    by (auto simp: render_initial_below initial_store_root nodeRow_def Let_def)
qed (use assms in \<open>simp_all add: nodeRow_def Let_def\<close>)

text \<open>
  C3, as stated, fails: the empty array and the empty object at the root are rendered as
  no row at all.
\<close>

theorem empty_root_counterexample:
  "length (render initial_store (JArr []) [] None False) \<noteq> 1
   \<and> length (render initial_store (JObj []) [] None False) \<noteq> 1"
  by (simp add: render_JArr_eq render_JObj_eq ownRow_def elementRows_def propertyRows_def
        Object_keys_def initial_store_root)

text \<open>
  C3, amended: on the unmodified store every node below the root is rendered as exactly
  one row, its own, so that an empty array or object under a label is one row showing
  \<open>[]\<close> or \<open>{}\<close>; a root that is neither an array nor an object is one row; a root array
  or object has no row of its own, its rows being one for each element shown (and the
  next-page row) or one for each key, so that an empty array or object at the root is
  rendered as no row; and no row is hidden.
\<close>

theorem first_rendering:
  "(paths \<noteq> [] \<longrightarrow>
      render initial_store v paths (Some l) hide = [nodeRow v (initial_store paths) paths (Some l) hide])
   \<and> (getType v \<noteq> TArray \<and> getType v \<noteq> TObject \<longrightarrow>
        render initial_store v [] None False = [nodeRow v (initial_store []) [] None False])
   \<and> length (render initial_store (JArr xs) [] None False)
        = min (length xs) 25 + (if 25 < length xs then 1 else 0)
   \<and> length (render initial_store (JObj props) [] None False) = length props
   \<and> (\<forall>r \<in> set (render initial_store v [] None False). \<not> hidden r)
   \<and> render initial_store (JArr []) [] None False = []
   \<and> render initial_store (JObj []) [] None False = []
   \<and> rowValue (nodeRow (JArr []) s paths (Some l) hide) = Some (TextNode (ascii ''[]''))
   \<and> rowValue (nodeRow (JObj []) s paths (Some l) hide) = Some (TextNode (ascii ''{}''))
   \<and> rowOnClick (nodeRow (JArr []) s paths (Some l) hide) = None
   \<and> rowOnClick (nodeRow (JObj []) s paths (Some l) hide) = None"
proof (intro conjI impI ballI)
  show "render initial_store v paths (Some l) hide = [nodeRow v (initial_store paths) paths (Some l) hide]"
    if "paths \<noteq> []"
    using that by (rule render_initial_below)
  show "render initial_store v [] None False = [nodeRow v (initial_store []) [] None False]"
    if "getType v \<noteq> TArray \<and> getType v \<noteq> TObject"
    using that by (simp add: render_scalar_eq)
  show "length (render initial_store (JArr xs) [] None False)
        = min (length xs) 25 + (if 25 < length xs then 1 else 0)"
    by (simp add: render_JArr_eq ownRow_def length_elementRows_initial initial_store_root PAGE_SIZE_def)
  show "length (render initial_store (JObj props) [] None False) = length props"
    by (simp add: render_JObj_eq ownRow_def length_propertyRows_initial initial_store_root
          length_Object_keys)
  show "\<not> hidden r" if "r \<in> set (render initial_store v [] None False)" for r
    using that by (rule render_initial_root_visible)
  show "render initial_store (JArr []) [] None False = []"
    by (simp add: render_JArr_eq ownRow_def elementRows_def initial_store_root)
  show "render initial_store (JObj []) [] None False = []"
    by (simp add: render_JObj_eq ownRow_def propertyRows_def Object_keys_def initial_store_root)
  show "rowValue (nodeRow (JArr []) s paths (Some l) hide) = Some (TextNode (ascii ''[]''))"
    by (simp add: nodeRow_def Let_def getValue_children_def)
  show "rowValue (nodeRow (JObj []) s paths (Some l) hide) = Some (TextNode (ascii ''{}''))"
    by (simp add: nodeRow_def Let_def getValue_children_def Object_keys_def)
  show "rowOnClick (nodeRow (JArr []) s paths (Some l) hide) = None"
    by (simp add: nodeRow_def Let_def isCollapsable_def)
  show "rowOnClick (nodeRow (JObj []) s paths (Some l) hide) = None"
    by (simp add: nodeRow_def Let_def isCollapsable_def Object_keys_def)
qed

theorem first_rendering_witness:
  "[ascii ''.a''] \<noteq> []
   \<and> length (render initial_store (JObj []) [ascii ''.a''] (Some (LStr (ascii ''a''))) False) = 1
   \<and> length (render initial_store (JArr []) [ascii ''.a''] (Some (LStr (ascii ''a''))) False) = 1
   \<and> getType (JStr (ascii ''x'')) \<noteq> TArray \<and> getType (JStr (ascii ''x'')) \<noteq> TObject
   \<and> length (render initial_store (JStr (ascii ''x'')) [] None False) = 1
   \<and> length (render initial_store (JArr (replicate 60 (JArr [JNull]))) [] None False) = 26
   \<and> \<not> list_ex hidden (render initial_store (JArr (replicate 60 (JArr [JNull]))) [] None False)"
proof -
  have ne: "[ascii ''.a''] \<noteq> []" by simp
  have sc: "getType (JStr (ascii ''x'')) \<noteq> TArray \<and> getType (JStr (ascii ''x'')) \<noteq> TObject" by simp
  note t1 = first_rendering [of "[ascii ''.a'']" "JObj []" "LStr (ascii ''a'')" False]
  note t2 = first_rendering [of "[ascii ''.a'']" "JArr []" "LStr (ascii ''a'')" False]
  note t3 = first_rendering [of "[]" "JStr (ascii ''x'')" "LStr (ascii ''a'')" False]
  note t4 = first_rendering [of "[]" "JArr (replicate 60 (JArr [JNull]))" "LStr (ascii ''a'')" False
      "replicate 60 (JArr [JNull])"]
  have 1: "length (render initial_store (JObj []) [ascii ''.a''] (Some (LStr (ascii ''a''))) False) = 1"
    using t1 ne by simp
  have 2: "length (render initial_store (JArr []) [ascii ''.a''] (Some (LStr (ascii ''a''))) False) = 1"
    using t2 ne by simp
  have 3: "length (render initial_store (JStr (ascii ''x'')) [] None False) = 1"
    using t3 sc by simp
  have 4: "length (render initial_store (JArr (replicate 60 (JArr [JNull]))) [] None False) = 26"
    using t4 by simp
  have 5: "\<not> list_ex hidden (render initial_store (JArr (replicate 60 (JArr [JNull]))) [] None False)"
    using t4 by (simp add: list_ex_iff)
  from ne sc 1 2 3 4 5 show ?thesis by blast
qed


section \<open>Rows of a collapsed node\<close>

text \<open>
  Rendered with \<open>hide\<close>, a component gives rows that have the class \<open>hide\<close>, apart from
  the rows of the next-page buttons, which have no class.
\<close>

lemma render_hide:
  assumes "r \<in> set (render st v paths label True)"
  shows "hidden r \<or> isPagination r"
  using render_rows [OF assms] by (auto simp: nodeRow_def Let_def)

lemma elementRows_collapsed:
  assumes "\<not> expanded (st paths)" "r \<in> set (elementRows st xs paths hide n)"
  shows "hidden r \<or> isPagination r"
  using assms by (auto simp: in_elementRows dest: render_hide)

lemma propertyRows_collapsed:
  assumes "\<not> expanded (st paths)" "r \<in> set (propertyRows st props paths hide keys)"
  shows "hidden r \<or> isPagination r"
  using assms by (auto simp: in_propertyRows dest: render_hide)

lemma elementRows_scalars:
  assumes "n \<le> length xs" "\<forall>x \<in> set xs. getType x \<noteq> TArray \<and> getType x \<noteq> TObject"
  shows "elementRows st xs paths hide n =
     map (\<lambda>key. nodeRow (xs ! key) (st (paths @ [ascii ''['' @ show_nat key @ ascii '']'']))
                   (paths @ [ascii ''['' @ show_nat key @ ascii '']''])
                   (Some (LNum key)) (hide \<or> \<not> expanded (st paths))) [0..<n]"
proof -
  have "render st (xs ! key) (paths @ [ascii ''['' @ show_nat key @ ascii '']''])
          (Some (LNum key)) (hide \<or> \<not> expanded (st paths))
      = [nodeRow (xs ! key) (st (paths @ [ascii ''['' @ show_nat key @ ascii '']'']))
                   (paths @ [ascii ''['' @ show_nat key @ ascii '']''])
                   (Some (LNum key)) (hide \<or> \<not> expanded (st paths))]"
    if "key < n" for key
  proof -
    from that assms(1) have "xs ! key \<in> set xs" by simp
    with assms(2) show ?thesis by (simp add: render_scalar_eq)
  qed
  then have eq: "map (\<lambda>key. render st (xs ! key) (paths @ [ascii ''['' @ show_nat key @ ascii '']''])
          (Some (LNum key)) (hide \<or> \<not> expanded (st paths))) [0..<n]
     = map (\<lambda>key. [nodeRow (xs ! key) (st (paths @ [ascii ''['' @ show_nat key @ ascii '']'']))
                   (paths @ [ascii ''['' @ show_nat key @ ascii '']''])
                   (Some (LNum key)) (hide \<or> \<not> expanded (st paths))]) [0..<n]"
    by (intro map_cong) simp_all
  show ?thesis
    by (simp only: elementRows_def eq concat_map_singleton)
qed

lemma hidden_nodeRow: "hidden (nodeRow v s paths label hide) = hide"
  by (simp add: nodeRow_def Let_def)

lemma isArrayIndex_x: "\<not> isArrayIndex (ascii ''x'')"
  by (simp add: isArrayIndex_def ascii_def isDigit_def)

text \<open>The rows of the document \<open>{"x": {"a": [null, ... (60 times)]}}\<close> in any store.\<close>

lemma nested_doc_rows:
  fixes st :: store
  assumes "expanded (st [])"
  shows "render st (JObj [(ascii ''x'', JObj [(ascii ''a'', JArr (replicate 60 JNull))])]) [] None False =
     nodeRow (JObj [(ascii ''a'', JArr (replicate 60 JNull))]) (st [ascii ''.x'']) [ascii ''.x'']
       (Some (LStr (ascii ''x''))) False #
     (if expanded (st [ascii ''.x'']) \<or> hasBeenExpanded (st [ascii ''.x'']) then
        render st (JArr (replicate 60 JNull)) [ascii ''.x'', ascii ''.a'']
          (Some (LStr (ascii ''a''))) (\<not> expanded (st [ascii ''.x'']))
      else [])"
proof -
  have keys_x: "Object_keys [(ascii ''x'', JObj [(ascii ''a'', JArr (replicate 60 JNull))])] = [ascii ''x'']"
    by (simp add: Object_keys_def isArrayIndex_x)
  have keys_a: "Object_keys [(ascii ''a'', JArr (replicate 60 JNull))] = [ascii ''a'']"
    by (simp add: Object_keys_def isArrayIndex_a)
  have px: "ascii ''.'' @ ascii ''x'' = ascii ''.x''" and pa: "ascii ''.'' @ ascii ''a'' = ascii ''.a''"
    by (simp_all add: ascii_def)
  show ?thesis
    using assms
    by (simp add: render_JObj_eq ownRow_def propertyRows_def keys_x keys_a prop_get_def px pa)
qed

lemma nested_array_rows:
  fixes st :: store
  assumes "st [ascii ''.x'', ascii ''.a''] = \<lparr>expanded = e, hasBeenExpanded = True, page = 0\<rparr>"
  shows "render st (JArr (replicate 60 JNull)) [ascii ''.x'', ascii ''.a''] (Some (LStr (ascii ''a''))) h =
     nodeRow (JArr (replicate 60 JNull)) (st [ascii ''.x'', ascii ''.a'']) [ascii ''.x'', ascii ''.a'']
       (Some (LStr (ascii ''a''))) h #
     elementRows st (replicate 60 JNull) [ascii ''.x'', ascii ''.a''] h 25 @
     [TrNext 2 (ascii ''25'' @ [ellipsis] @ ascii ''59'') (HandleNextPage [ascii ''.x'', ascii ''.a''])
        (ascii ''Show 25 More'')]"
proof -
  have "expanded (st [ascii ''.x'', ascii ''.a'']) \<or> hasBeenExpanded (st [ascii ''.x'', ascii ''.a''])"
    by (simp add: assms)
  from render_JArr_shown [of st "[ascii ''.x'', ascii ''.a'']" "replicate 60 JNull"
      "Some (LStr (ascii ''a''))" h, OF this]
  show ?thesis
    by (simp add: assms ownRow_def show_nat_25 show_nat_59)
qed

text \<open>
  C5 at the document \<open>{"x": {"a": [null, ... (60 times)]}}\<close>, with three clicks, each on a
  row that is rendered when it is clicked: on the key \<open>x\<close>, on the key \<open>a\<close>, and on \<open>x\<close>
  again. The node \<open>x\<close> is then collapsed. Its own row is shown; the row of \<open>a\<close> and the rows
  of the 25 elements are kept and hidden; the row of the next-page button of \<open>a\<close> is kept
  and is not hidden.
\<close>

theorem collapsed_node_shows_next_page_row:
  "(let doc = JObj [(ascii ''x'', JObj [(ascii ''a'', JArr (replicate 60 JNull))])];
        x = [ascii ''.x''];
        a = [ascii ''.x'', ascii ''.a''];
        st1 = dispatch initial_store (HandleClickKey x);
        st2 = dispatch st1 (HandleClickKey a);
        st3 = dispatch st2 (HandleClickKey x);
        rows = render st3 doc [] None False
    in Some (HandleClickKey x) \<in> set (map onClick (render initial_store doc [] None False))
       \<and> Some (HandleClickKey a) \<in> set (map onClick (render st1 doc [] None False))
       \<and> Some (HandleClickKey x) \<in> set (map onClick (render st2 doc [] None False))
       \<and> \<not> expanded (st3 x)
       \<and> hasBeenExpanded (st3 x)
       \<and> map hidden rows = [False] @ replicate 26 True @ [False]
       \<and> last rows = TrNext 2 (ascii ''25'' @ [ellipsis] @ ascii ''59'') (HandleNextPage a)
                        (ascii ''Show 25 More''))"
proof -
  let ?arr = "JArr (replicate 60 JNull)"
  let ?xv = "JObj [(ascii ''a'', ?arr)]"
  let ?doc = "JObj [(ascii ''x'', ?xv)]"
  let ?x = "[ascii ''.x'']"
  let ?a = "[ascii ''.x'', ascii ''.a'']"
  let ?st1 = "dispatch initial_store (HandleClickKey ?x)"
  let ?st2 = "dispatch ?st1 (HandleClickKey ?a)"
  let ?st3 = "dispatch ?st2 (HandleClickKey ?x)"
  let ?next = "TrNext 2 (ascii ''25'' @ [ellipsis] @ ascii ''59'') (HandleNextPage ?a)
                        (ascii ''Show 25 More'')"
  have ne: "?x \<noteq> ?a" "?a \<noteq> ?x" by simp_all
  have root: "expanded (initial_store [])" "expanded (?st1 [])" "expanded (?st2 [])" "expanded (?st3 [])"
    by (simp_all add: initial_store_def constructor_def)
  have x0: "initial_store ?x = \<lparr>expanded = False, hasBeenExpanded = False, page = 0\<rparr>"
    and x1: "?st1 ?x = \<lparr>expanded = True, hasBeenExpanded = True, page = 0\<rparr>"
    and x2: "?st2 ?x = \<lparr>expanded = True, hasBeenExpanded = True, page = 0\<rparr>"
    and x3: "?st3 ?x = \<lparr>expanded = False, hasBeenExpanded = True, page = 0\<rparr>"
    by (simp_all add: initial_store_def constructor_def handleClickKey_def)
  have a1: "?st1 ?a = \<lparr>expanded = False, hasBeenExpanded = False, page = 0\<rparr>"
    and a3: "?st3 ?a = \<lparr>expanded = True, hasBeenExpanded = True, page = 0\<rparr>"
    using ne by (simp_all add: initial_store_def constructor_def handleClickKey_def)
  have col_x: "isCollapsable ?xv" and col_a: "isCollapsable ?arr"
    by (simp_all add: isCollapsable_def length_Object_keys)
  have click1: "Some (HandleClickKey ?x) \<in> set (map onClick (render initial_store ?doc [] None False))"
    by (simp only: nested_doc_rows [of initial_store, OF root(1)]) (simp add: x0 onClick_nodeRow col_x)
  have click2: "Some (HandleClickKey ?a) \<in> set (map onClick (render ?st1 ?doc [] None False))"
    by (simp only: nested_doc_rows [of "dispatch initial_store (HandleClickKey [ascii ''.x''])", OF root(2)])
       (simp add: x1 a1 render_JArr_eq ownRow_def onClick_nodeRow col_a del: dispatch.simps)
  have click3: "Some (HandleClickKey ?x) \<in> set (map onClick (render ?st2 ?doc [] None False))"
    by (simp only: nested_doc_rows [of "dispatch (dispatch initial_store (HandleClickKey [ascii ''.x''])) (HandleClickKey [ascii ''.x'', ascii ''.a''])", OF root(3)]) (simp add: onClick_nodeRow col_x del: dispatch.simps)
  have elems: "elementRows ?st3 (replicate 60 JNull) ?a True 25 =
     map (\<lambda>key. nodeRow (replicate 60 JNull ! key) (?st3 (?a @ [ascii ''['' @ show_nat key @ ascii '']'']))
                   (?a @ [ascii ''['' @ show_nat key @ ascii '']''])
                   (Some (LNum key)) (True \<or> \<not> expanded (?st3 ?a))) [0..<25]"
    by (rule elementRows_scalars) simp_all
  have hid: "map hidden (elementRows ?st3 (replicate 60 JNull) ?a True 25) = replicate 25 True"
    unfolding elems by (simp add: hidden_nodeRow map_replicate_const comp_def del: dispatch.simps)
  have rows: "render ?st3 ?doc [] None False =
     nodeRow ?xv (?st3 ?x) ?x (Some (LStr (ascii ''x''))) False #
     nodeRow ?arr (?st3 ?a) ?a (Some (LStr (ascii ''a''))) True #
     elementRows ?st3 (replicate 60 JNull) ?a True 25 @ [?next]"
    by (simp only: nested_doc_rows [of "dispatch (dispatch (dispatch initial_store (HandleClickKey [ascii ''.x''])) (HandleClickKey [ascii ''.x'', ascii ''.a''])) (HandleClickKey [ascii ''.x''])", OF root(4)] nested_array_rows [of "dispatch (dispatch (dispatch initial_store (HandleClickKey [ascii ''.x''])) (HandleClickKey [ascii ''.x'', ascii ''.a''])) (HandleClickKey [ascii ''.x''])", OF a3])
       (simp add: x3 del: dispatch.simps)
  have "(26 :: nat) = Suc 25" by simp
  then have r26: "replicate 26 True = True # replicate 25 True"
    by (simp only: replicate_Suc)
  have flags: "map hidden (render ?st3 ?doc [] None False) = [False] @ replicate 26 True @ [False]"
    unfolding rows by (simp add: hidden_nodeRow hid r26 del: dispatch.simps)
  have last: "last (render ?st3 ?doc [] None False) = ?next"
    unfolding rows by (simp del: dispatch.simps)
  have closed: "\<not> expanded (?st3 ?x)" "hasBeenExpanded (?st3 ?x)"
    by (simp_all add: x3 del: dispatch.simps)
  from click1 click2 click3 closed flags last show ?thesis
    unfolding Let_def by blast
qed

end
